theory Spec2Isabelle
  imports Complex_Main
begin

section \<open>Payment-plan calculator: the model\<close>

text \<open>
  A shallow embedding of the computation in \<^verbatim>\<open>src/App.tsx\<close> (component
  \<^verbatim>\<open>PaymentPlanner\<close>). Currency amounts, areas and percentages are JavaScript
  numbers in the source; they are modelled as exact reals, so for them \<^verbatim>\<open>NaN\<close>,
  infinities and binary rounding are outside the model. The start month is a free string,
  so the date functions are modelled with \<^verbatim>\<open>NaN\<close>, \<^verbatim>\<open>Infinity\<close> and the
  Invalid Date. Month numbers and the financing horizon are
  modelled as integers, which is what the data model of the plan prescribes; the key
  \<^verbatim>\<open>String(e.month)\<close> of the grouping helper is then injective and is represented by the
  integer itself. Row labels and date labels are template strings in the source and are kept
  as structured values (the template with its holes).
\<close>

subsection \<open>Utilities\<close>

definition clamp :: "'a::linorder \<Rightarrow> 'a \<Rightarrow> 'a \<Rightarrow> 'a" where
  "clamp val mn mx = max mn (min mx val)"

definition roundCeilToMultiple :: "real \<Rightarrow> real \<Rightarrow> real" where
  "roundCeilToMultiple n mult =
     (if mult = 0 \<or> mult \<le> 0 then of_int \<lceil>n\<rceil> else of_int \<lceil>n / mult\<rceil> * mult)"

definition roundFloorToMultiple :: "real \<Rightarrow> real \<Rightarrow> real" where
  "roundFloorToMultiple n mult =
     (if mult = 0 \<or> mult \<le> 0 then of_int \<lfloor>n\<rfloor> else of_int \<lfloor>n / mult\<rfloor> * mult)"

text \<open>
  The remainder operator \<^verbatim>\<open>%\<close> of the source language on finite numbers with a
  non-zero divisor: the quotient is truncated towards zero. It is used by the
  component's own console check of the rounding invariant.
\<close>

definition js_rem :: "real \<Rightarrow> real \<Rightarrow> real" where
  "js_rem a b =
     a - b * of_int (if 0 \<le> a / b then \<lfloor>a / b\<rfloor> else \<lceil>a / b\<rceil>)"

definition BASE_PRICE_PER_M2 :: real where
  "BASE_PRICE_PER_M2 = 365000"

subsection \<open>Dates, month by month\<close>

text \<open>
  The numbers that reach the date functions: \<^verbatim>\<open>NaN\<close>, \<^verbatim>\<open>Infinity\<close> or a finite
  value. \<^verbatim>\<open>Number(s)\<close> of a piece of the start-month string is such a number.
\<close>

datatype number = NaN | Infinity | Num real

text \<open>
  Every \<^verbatim>\<open>Date\<close> of the component is built by \<^verbatim>\<open>Date.UTC(y, m, 1)\<close> or by
  \<^verbatim>\<open>setUTCMonth\<close> on such a date, so a valid one is the first day of a month at
  00:00 UTC and is represented by its year and its month index (0 to 11). The Invalid
  Date, whose time value is \<^verbatim>\<open>NaN\<close>, is \<^const>\<open>None\<close>.
\<close>

record date =
  year :: int
  mon :: int

definition monthNamesEs :: "string list" where
  "monthNamesEs =
     [''enero'', ''febrero'', ''marzo'', ''abril'', ''mayo'', ''junio'', ''julio'',
      ''agosto'', ''septiembre'', ''octubre'', ''noviembre'', ''diciembre'']"

text \<open>
  The date arithmetic of the language standard. \<open>ToIntegerOrInfinity\<close> truncates a finite
  number towards zero; \<open>MakeFullYear\<close> moves a year from 0 to 99 to 1900 + year;
  \<open>MakeDay\<close> carries a month outside 0..11 into the year and gives the number of the day,
  counted from 1 January 1970, on which that month starts; \<open>TimeClip\<close> turns a time value
  of more than 8.64e15 milliseconds, in either direction, into \<^verbatim>\<open>NaN\<close>.
\<close>

definition ToIntegerOrInfinity :: "real \<Rightarrow> int" where
  "ToIntegerOrInfinity x = (if 0 \<le> x then \<lfloor>x\<rfloor> else \<lceil>x\<rceil>)"

definition MakeFullYear :: "real \<Rightarrow> real" where
  "MakeFullYear y =
     (let yi = ToIntegerOrInfinity y
      in if 0 \<le> yi \<and> yi \<le> 99 then 1900 + of_int yi else y)"

definition DayFromYear :: "int \<Rightarrow> int" where
  "DayFromYear y =
     365 * (y - 1970) + (y - 1969) div 4 - (y - 1901) div 100 + (y - 1601) div 400"

definition InLeapYear :: "int \<Rightarrow> int" where
  "InLeapYear y =
     (if y mod 4 \<noteq> 0 then 0 else if y mod 100 \<noteq> 0 then 1 else if y mod 400 \<noteq> 0 then 0 else 1)"

definition monthStartDay :: "int \<Rightarrow> int \<Rightarrow> int" where
  "monthStartDay y mn =
     [0, 31, 59, 90, 120, 151, 181, 212, 243, 273, 304, 334] ! nat mn
     + (if 2 \<le> mn then InLeapYear y else 0)"

definition MakeDay :: "int \<Rightarrow> int \<Rightarrow> int" where
  "MakeDay y m =
     (let ym = y + m div 12; mn = m mod 12
      in DayFromYear ym + monthStartDay ym mn)"

definition msPerDay :: int where
  "msPerDay = 86400000"

definition TimeClip :: "int \<Rightarrow> int option" where
  "TimeClip t = (if \<bar>t\<bar> > 8640000000000000 then None else Some t)"

text \<open>
  The date with day 1 and time 00:00 made from an integral year and month. The time value
  that \<open>MakeDay\<close> finds has, by its definition, the year \<open>y + m div 12\<close> and the month
  \<open>m mod 12\<close>.
\<close>

definition first_of_month :: "int \<Rightarrow> int \<Rightarrow> date option" where
  "first_of_month y m =
     (case TimeClip (MakeDay y m * msPerDay) of
        None \<Rightarrow> None
      | Some t \<Rightarrow> Some \<lparr>year = y + m div 12, mon = m mod 12\<rparr>)"

text \<open>\<^verbatim>\<open>new Date(Date.UTC(y, m, 1))\<close>: not a date unless both numbers are finite.\<close>

definition date_utc :: "number \<Rightarrow> number \<Rightarrow> date option" where
  "date_utc y m =
     (case y of
        Num yv \<Rightarrow>
          (case m of
             Num mv \<Rightarrow>
               first_of_month (ToIntegerOrInfinity (MakeFullYear yv)) (ToIntegerOrInfinity mv)
           | _ \<Rightarrow> None)
      | _ \<Rightarrow> None)"

definition getUTCFullYear :: "date option \<Rightarrow> number" where
  "getUTCFullYear d = (case d of None \<Rightarrow> NaN | Some dt \<Rightarrow> Num (of_int (year dt)))"

definition getUTCMonth :: "date option \<Rightarrow> number" where
  "getUTCMonth d = (case d of None \<Rightarrow> NaN | Some dt \<Rightarrow> Num (of_int (mon dt)))"

text \<open>
  The date label \<^verbatim>\<open>`${m} ${y}`\<close>, as the pair of its two holes. On the Invalid Date
  the month index is \<^verbatim>\<open>NaN\<close>, the name looked up is \<^verbatim>\<open>undefined\<close> and the year is
  \<^verbatim>\<open>NaN\<close>, here \<^const>\<open>None\<close>.
\<close>

definition formatMonthEs :: "date option \<Rightarrow> string \<times> int option" where
  "formatMonthEs d =
     (case d of
        None \<Rightarrow> (''undefined'', None)
      | Some dt \<Rightarrow>
          (if 0 \<le> mon dt \<and> mon dt < 12 then monthNamesEs ! nat (mon dt) else ''undefined'',
           Some (year dt)))"

text \<open>
  \<^verbatim>\<open>addMonths\<close> rebuilds the date with \<^verbatim>\<open>Date.UTC\<close> from its year and month and
  then calls \<^verbatim>\<open>setUTCMonth\<close> with the month plus the offset. \<^verbatim>\<open>setUTCMonth\<close> leaves
  the Invalid Date as it is, and on a valid date makes the day from the year of the date
  and the new month and clips the time again. The offset is an integer.
\<close>

definition addMonths :: "date option \<Rightarrow> int \<Rightarrow> date option" where
  "addMonths d months =
     (let d0 = date_utc (getUTCFullYear d) (getUTCMonth d)
      in case d0 of
           None \<Rightarrow> None
         | Some dt \<Rightarrow> first_of_month (year dt) (mon dt + months))"

text \<open>
  \<^verbatim>\<open>parseMonthStr\<close> splits its string at the minus signs and applies \<^verbatim>\<open>Number\<close> to
  the first two pieces. The model receives the two numbers, \<^verbatim>\<open>NaN\<close> and
  \<^verbatim>\<open>Infinity\<close> included; a missing second piece gives \<^verbatim>\<open>NaN\<close>. In \<^verbatim>\<open>(m || 1) - 1\<close>
  the month is replaced by 1 when it is \<^verbatim>\<open>NaN\<close> or 0.
\<close>

definition parseMonthStr :: "number \<times> number \<Rightarrow> date option" where
  "parseMonthStr ym =
     (let y = fst ym; m = snd ym;
          m1 = (if m = NaN \<or> m = Num 0 then Num 1 else m)
      in date_utc y (case m1 of Num v \<Rightarrow> Num (v - 1) | NaN \<Rightarrow> NaN | Infinity \<Rightarrow> Infinity))"

text \<open>
  No piece of a string split at the minus signs contains a minus sign, so the number it
  denotes is not negative.
\<close>

definition no_minus :: "number \<Rightarrow> bool" where
  "no_minus x = (case x of Num v \<Rightarrow> 0 \<le> v | NaN \<Rightarrow> True | Infinity \<Rightarrow> True)"

subsection \<open>Inputs and rows\<close>

record extra =
  extra_id :: string
  month :: int
  amount :: real

datatype row_type = Initial | Monthly | Extra | Balloon

datatype row_label =
    CuotaInicial
  | Extraordinaria int
  | CuotaMensual int
  | UltimaCuota

record row =
  rtype :: row_type
  rlabel :: row_label
  rmonth :: int
  ramount :: real

record dated_row = row +
  rdate :: "string \<times> int option"

text \<open>The state of the component that the computation reads.\<close>

record inputs =
  area :: real
  pricePerM2 :: real
  months :: int
  balloonPct :: real
  initialPayment :: real
  startMonth :: "number \<times> number"
  roundingMultiple :: real
  extras :: "extra list"

subsection \<open>Pricing\<close>

definition fullPrice :: "inputs \<Rightarrow> real" where
  "fullPrice inp = clamp (area inp) 1 1000000 * BASE_PRICE_PER_M2"

definition negotiatedPrice :: "inputs \<Rightarrow> real" where
  "negotiatedPrice inp = clamp (area inp) 1 1000000 * clamp (pricePerM2 inp) 0 100000000"

definition discountAmount :: "inputs \<Rightarrow> real" where
  "discountAmount inp = max 0 (fullPrice inp - negotiatedPrice inp)"

definition netPrice :: "inputs \<Rightarrow> real" where
  "netPrice inp = negotiatedPrice inp"

definition balloonValue :: "inputs \<Rightarrow> real" where
  "balloonValue inp = (netPrice inp * clamp (balloonPct inp) 0 90) / 100"

definition cappedInitial :: "inputs \<Rightarrow> real" where
  "cappedInitial inp = clamp (initialPayment inp) 0 (max 0 (netPrice inp))"

subsection \<open>Extraordinary payments\<close>

text \<open>
  \<^verbatim>\<open>Array.prototype.sort\<close> with the comparator \<^verbatim>\<open>a.month - b.month\<close> is a stable
  sort on the month; \<^const>\<open>sort_key\<close> is the stable insertion sort.
\<close>

definition orderedExtras :: "inputs \<Rightarrow> extra list" where
  "orderedExtras inp =
     (let copy = filter (\<lambda>e. amount e > 0 \<and> month e \<ge> 1) (extras inp)
      in sort_key month copy)"

definition clampedM :: "inputs \<Rightarrow> int" where
  "clampedM inp = clamp (months inp) 1 240"

definition validExtras :: "inputs \<Rightarrow> extra list" where
  "validExtras inp =
     filter (\<lambda>e. amount e > 0 \<and> month e \<ge> 1 \<and> month e \<le> clampedM inp) (orderedExtras inp)"

definition extrasSum :: "inputs \<Rightarrow> real" where
  "extrasSum inp = foldl (\<lambda>s e. s + amount e) 0 (validExtras inp)"

definition baseForMonthly :: "inputs \<Rightarrow> real" where
  "baseForMonthly inp =
     max 0 (netPrice inp - cappedInitial inp - balloonValue inp - extrasSum inp)"

definition numMonthlyPayments :: "inputs \<Rightarrow> int" where
  "numMonthlyPayments inp = max 0 (clampedM inp - int (length (validExtras inp)))"

subsection \<open>Installment and balloon\<close>

text \<open>
  The pair \<^verbatim>\<open>(monthlyInstallment, adjustedBalloon)\<close> after the conditional block of
  \<^verbatim>\<open>schedule\<close>.
\<close>

definition reconcile :: "inputs \<Rightarrow> real \<times> real" where
  "reconcile inp =
     (if numMonthlyPayments inp > 0 then
        (let raw = baseForMonthly inp / of_int (numMonthlyPayments inp);
             candidateUp = roundCeilToMultiple raw (roundingMultiple inp);
             totalMonthlyUp = candidateUp * of_int (numMonthlyPayments inp);
             balloonAfterUp = balloonValue inp - (totalMonthlyUp - baseForMonthly inp)
         in if balloonAfterUp \<ge> 0 then (candidateUp, balloonAfterUp)
            else
              (let candidateDown = max 0 (roundFloorToMultiple raw (roundingMultiple inp));
                   totalMonthlyDown = candidateDown * of_int (numMonthlyPayments inp)
               in (candidateDown,
                   max 0 (balloonValue inp + (baseForMonthly inp - totalMonthlyDown)))))
      else (0, balloonValue inp))"

definition monthlyInstallment :: "inputs \<Rightarrow> real" where
  "monthlyInstallment inp = fst (reconcile inp)"

definition adjustedBalloon :: "inputs \<Rightarrow> real" where
  "adjustedBalloon inp = snd (reconcile inp)"

subsection \<open>Row assembly\<close>

definition groupByPolyfill :: "'a list \<Rightarrow> ('a \<Rightarrow> 'k) \<Rightarrow> ('k \<rightharpoonup> 'a list)" where
  "groupByPolyfill arr fn =
     foldl (\<lambda>acc item.
              (let key = fn item;
                   acc1 = (if acc key = None then acc(key \<mapsto> []) else acc)
               in acc1(key \<mapsto> (case acc1 key of None \<Rightarrow> [] | Some l \<Rightarrow> l) @ [item])))
           Map.empty arr"

definition month_rows :: "(int \<rightharpoonup> extra list) \<Rightarrow> real \<Rightarrow> int \<Rightarrow> row list" where
  "month_rows extrasByMonth mi m =
     (let list = (case extrasByMonth m of None \<Rightarrow> [] | Some l \<Rightarrow> l)
      in if length list \<noteq> 0
         then map (\<lambda>ex. \<lparr>rtype = Extra, rlabel = Extraordinaria m, rmonth = m,
                          ramount = amount ex\<rparr>) list
         else [\<lparr>rtype = Monthly, rlabel = CuotaMensual m, rmonth = m, ramount = mi\<rparr>])"

function month_loop :: "(int \<rightharpoonup> extra list) \<Rightarrow> real \<Rightarrow> int \<Rightarrow> int \<Rightarrow> row list \<Rightarrow> row list" where
  "month_loop extrasByMonth mi m M rows =
     (if m \<le> M then month_loop extrasByMonth mi (m + 1) M (rows @ month_rows extrasByMonth mi m)
      else rows)"
  by pat_completeness auto
termination
  by (relation "measure (\<lambda>(extrasByMonth, mi, m, M, rows). nat (M + 1 - m))") auto

declare month_loop.simps [simp del]

definition schedule :: "inputs \<Rightarrow> row list" where
  "schedule inp =
     (let M = clampedM inp;
          rows = [\<lparr>rtype = Initial, rlabel = CuotaInicial, rmonth = 0,
                   ramount = cappedInitial inp\<rparr>];
          extrasByMonth = groupByPolyfill (validExtras inp) month;
          rows = month_loop extrasByMonth (monthlyInstallment inp) 1 M rows
      in rows @ [\<lparr>rtype = Balloon, rlabel = UltimaCuota, rmonth = M + 1,
                  ramount = adjustedBalloon inp\<rparr>])"

subsection \<open>Totals and dates\<close>

record totals_rec =
  monthlyTotal :: real
  extrasTotal :: real
  initial :: real
  balloon :: real
  grand :: real

definition totals :: "inputs \<Rightarrow> totals_rec" where
  "totals inp =
     (let monthlyTotal = foldl (\<lambda>s r. s + ramount r) 0
                           (filter (\<lambda>r. rtype r = Monthly) (schedule inp));
          extrasTotal = foldl (\<lambda>s r. s + ramount r) 0
                          (filter (\<lambda>r. rtype r = Extra) (schedule inp));
          initial = (case find (\<lambda>r. rtype r = Initial) (schedule inp) of
                       None \<Rightarrow> 0 | Some r \<Rightarrow> ramount r);
          balloon = (case find (\<lambda>r. rtype r = Balloon) (schedule inp) of
                       None \<Rightarrow> 0 | Some r \<Rightarrow> ramount r)
      in \<lparr>monthlyTotal = monthlyTotal, extrasTotal = extrasTotal, initial = initial,
          balloon = balloon, grand = initial + monthlyTotal + extrasTotal + balloon\<rparr>)"

definition scheduleWithDates :: "inputs \<Rightarrow> dated_row list" where
  "scheduleWithDates inp =
     (let base = parseMonthStr (startMonth inp)
      in map (\<lambda>r. (let offset = max 0 (rmonth r - 1);
                        d = formatMonthEs (addMonths base offset)
                    in row.extend r \<lparr>rdate = d\<rparr>))
             (schedule inp))"

text \<open>The first console check of the component: the rows add up to the net price.\<close>

definition ok1 :: "inputs \<Rightarrow> bool" where
  "ok1 inp = (\<bar>grand (totals inp) - netPrice inp\<bar> \<le> 1)"

subsection \<open>Concrete plans\<close>

definition scenarioA :: inputs where
  "scenarioA =
     \<lparr>area = 500, pricePerM2 = 350000, months = 36, balloonPct = 25,
      initialPayment = 20000000, startMonth = (Num 2025, Num 1), roundingMultiple = 0,
      extras = []\<rparr>"

definition planDup :: inputs where
  "planDup =
     \<lparr>area = 500, pricePerM2 = 350000, months = 36, balloonPct = 25,
      initialPayment = 20000000, startMonth = (Num 2025, Num 1), roundingMultiple = 0,
      extras = [\<lparr>extra_id = ''a'', month = 12, amount = 10000000\<rparr>,
                \<lparr>extra_id = ''b'', month = 12, amount = 10000000\<rparr>]\<rparr>"

definition planSmall :: inputs where
  "planSmall =
     \<lparr>area = 500, pricePerM2 = 350000, months = 3, balloonPct = 25,
      initialPayment = 20000000, startMonth = (Num 2025, Num 1), roundingMultiple = 50000,
      extras = [\<lparr>extra_id = ''a'', month = 2, amount = 10000000\<rparr>]\<rparr>"

definition planDown :: inputs where
  "planDown =
     \<lparr>area = 500, pricePerM2 = 350000, months = 3, balloonPct = 0,
      initialPayment = 20000000, startMonth = (Num 2025, Num 1), roundingMultiple = 50000,
      extras = []\<rparr>"

definition planCrowded :: inputs where
  "planCrowded =
     \<lparr>area = 500, pricePerM2 = 350000, months = 2, balloonPct = 25,
      initialPayment = 20000000, startMonth = (Num 2025, Num 1), roundingMultiple = 0,
      extras = [\<lparr>extra_id = ''a'', month = 1, amount = 10000000\<rparr>,
                \<lparr>extra_id = ''b'', month = 1, amount = 5000000\<rparr>]\<rparr>"

definition planLate :: inputs where
  "planLate =
     \<lparr>area = 500, pricePerM2 = 350000, months = 3, balloonPct = 25,
      initialPayment = 20000000, startMonth = (Num 275760, Num 9), roundingMultiple = 50000,
      extras = [\<lparr>extra_id = ''a'', month = 2, amount = 10000000\<rparr>]\<rparr>"

text \<open>
  The valid dates that \<^const>\<open>parseMonthStr\<close> returns on numbers that are not negative: the
  year is at least 100, the month index is in range, and building the date again from its
  own year and month gives the same date.
\<close>

definition normal_date :: "date \<Rightarrow> bool" where
  "normal_date d =
     (100 \<le> year d \<and> 0 \<le> mon d \<and> mon d < 12 \<and> first_of_month (year d) (mon d) = Some d)"

section \<open>Properties\<close>

subsection \<open>The loop, the grouping helper and the shape of the schedule\<close>

lemma month_loop_eq:
  "month_loop byM mi m M rows = rows @ concat (map (month_rows byM mi) [m..M])"
proof (induction byM mi m M rows rule: month_loop.induct)
  case (1 byM mi m M rows)
  show ?case
  proof (cases "m \<le> M")
    case True
    then show ?thesis
      using 1 by (subst month_loop.simps) (simp add: upto_rec1 [of m M])
  next
    case False
    then show ?thesis by (subst month_loop.simps) simp
  qed
qed

lemma groupBy_step:
  "(case (foldl (\<lambda>acc item.
              (let key = fn item;
                   acc1 = (if acc key = None then acc(key \<mapsto> []) else acc)
               in acc1(key \<mapsto> (case acc1 key of None \<Rightarrow> [] | Some l \<Rightarrow> l) @ [item])))
           acc0 arr) k of None \<Rightarrow> [] | Some l \<Rightarrow> l)
   = (case acc0 k of None \<Rightarrow> [] | Some l \<Rightarrow> l) @ filter (\<lambda>x. fn x = k) arr"
  by (induction arr arbitrary: acc0) (auto simp: Let_def split: option.splits)

lemma groupBy_lookup:
  "(case groupByPolyfill arr fn k of None \<Rightarrow> [] | Some l \<Rightarrow> l) = filter (\<lambda>x. fn x = k) arr"
  unfolding groupByPolyfill_def by (simp add: groupBy_step)

lemma foldl_amount: "foldl (\<lambda>s e. s + f e) a xs = a + sum_list (map f xs)" for a :: real
  by (induction xs arbitrary: a) auto

lemma month_rows_group:
  "month_rows (groupByPolyfill xs month) mi m =
     (if filter (\<lambda>e. month e = m) xs \<noteq> []
      then map (\<lambda>ex. \<lparr>rtype = Extra, rlabel = Extraordinaria m, rmonth = m, ramount = amount ex\<rparr>)
             (filter (\<lambda>e. month e = m) xs)
      else [\<lparr>rtype = Monthly, rlabel = CuotaMensual m, rmonth = m, ramount = mi\<rparr>])"
  unfolding month_rows_def by (simp add: groupBy_lookup Let_def)

lemma month_rows_month: "r \<in> set (month_rows byM mi m) \<Longrightarrow> rmonth r = m"
  unfolding month_rows_def by (auto simp: Let_def split: if_splits)

lemma schedule_eq:
  "schedule inp =
     \<lparr>rtype = Initial, rlabel = CuotaInicial, rmonth = 0, ramount = cappedInitial inp\<rparr>
     # concat (map (month_rows (groupByPolyfill (validExtras inp) month) (monthlyInstallment inp))
                [1..clampedM inp])
     @ [\<lparr>rtype = Balloon, rlabel = UltimaCuota, rmonth = clampedM inp + 1,
         ramount = adjustedBalloon inp\<rparr>]"
  unfolding schedule_def by (simp add: month_loop_eq Let_def)

lemma filter_month_concat:
  "filter (\<lambda>r. rmonth r = m) (concat (map (month_rows byM mi) [a..b]))
     = (if a \<le> m \<and> m \<le> b then month_rows byM mi m else [])"
proof (induction a b rule: upto.induct)
  case (1 i j)
  have nomatch: "filter (\<lambda>r. rmonth r = m) (month_rows byM mi i) = []" if "i \<noteq> m"
    using that by (auto simp: filter_empty_conv dest: month_rows_month)
  have match: "filter (\<lambda>r. rmonth r = m) (month_rows byM mi m) = month_rows byM mi m"
    by (auto simp: filter_id_conv dest: month_rows_month)
  show ?case
  proof (cases "i \<le> j")
    case True
    note le = True
    show ?thesis
    proof (cases "i = m")
      case True
      then show ?thesis
        using 1 le match by (subst upto.simps) simp
    next
      case False
      then have "(i \<le> m) = (i + 1 \<le> m)" by arith
      then show ?thesis
        using 1 le nomatch [OF False] by (subst upto.simps) simp
    qed
  next
    case False
    then have "\<not> (i \<le> m \<and> m \<le> j)" by arith
    with False show ?thesis by (subst upto.simps) auto
  qed
qed

lemma clampedM_range: "1 \<le> clampedM inp \<and> clampedM inp \<le> 240"
  by (simp add: clampedM_def clamp_def)

lemma schedule_month:
  assumes "1 \<le> m" "m \<le> clampedM inp"
  shows "filter (\<lambda>r. rmonth r = m) (schedule inp)
           = month_rows (groupByPolyfill (validExtras inp) month) (monthlyInstallment inp) m"
  using assms by (simp add: schedule_eq filter_month_concat)

lemma validExtras_eq:
  "validExtras inp = sort_key month (filter (\<lambda>e. amount e > 0 \<and> month e \<ge> 1 \<and> month e \<le> clampedM inp) (extras inp))"
  unfolding validExtras_def orderedExtras_def Let_def
  by (simp add: filter_sort conj_commute conj_left_commute cong: conj_cong)

lemma validExtras_at:
  "filter (\<lambda>e. month e = m) (validExtras inp)
     = filter (\<lambda>e. month e = m \<and> amount e > 0 \<and> 1 \<le> m \<and> m \<le> clampedM inp) (extras inp)"
  unfolding validExtras_eq by (auto simp: sort_key_stable intro: filter_cong)

subsection \<open>Signs and rounding\<close>

lemma netPrice_nonneg: "0 \<le> netPrice inp"
  by (simp add: netPrice_def negotiatedPrice_def clamp_def)

lemma balloonValue_nonneg: "0 \<le> balloonValue inp"
  using netPrice_nonneg [of inp] by (simp add: balloonValue_def clamp_def)

lemma cappedInitial_nonneg: "0 \<le> cappedInitial inp"
  by (simp add: cappedInitial_def clamp_def)

lemma baseForMonthly_nonneg: "0 \<le> baseForMonthly inp"
  by (simp add: baseForMonthly_def)

lemma roundCeil_nonneg: "0 \<le> x \<Longrightarrow> 0 \<le> roundCeilToMultiple x g"
proof -
  assume x: "0 \<le> x"
  show ?thesis
  proof (cases "g \<le> 0")
    case True
    have "0 \<le> \<lceil>x\<rceil>" using x by (simp add: ceiling_le_iff le_ceiling_iff)
    with True show ?thesis by (simp add: roundCeilToMultiple_def)
  next
    case False
    then have g: "0 < g" by simp
    then have "0 \<le> x / g" using x by simp
    then have "0 \<le> \<lceil>x / g\<rceil>" by (simp add: le_ceiling_iff)
    with g show ?thesis by (simp add: roundCeilToMultiple_def)
  qed
qed

lemma roundCeil_multiple:
  assumes "0 < g"
  shows "roundCeilToMultiple x g = of_int \<lceil>x / g\<rceil> * g"
    and "x \<le> roundCeilToMultiple x g"
    and "roundCeilToMultiple x g < x + g"
proof -
  show eq: "roundCeilToMultiple x g = of_int \<lceil>x / g\<rceil> * g"
    using assms by (simp add: roundCeilToMultiple_def)
  have "x \<le> of_int \<lceil>x / g\<rceil> * g"
    using le_of_int_ceiling [of "x / g"] unfolding pos_divide_le_eq [OF assms] .
  then show "x \<le> roundCeilToMultiple x g" by (simp add: eq)
  have "of_int \<lceil>x / g\<rceil> < x / g + 1" by linarith
  then have "of_int \<lceil>x / g\<rceil> * g < (x / g + 1) * g" using assms by (simp only: mult_less_cancel_right_pos)
  then show "roundCeilToMultiple x g < x + g" using assms by (simp add: eq algebra_simps)
qed

lemma roundFloor_multiple:
  assumes "0 < g"
  shows "roundFloorToMultiple x g = of_int \<lfloor>x / g\<rfloor> * g"
    and "roundFloorToMultiple x g \<le> x"
    and "x < roundFloorToMultiple x g + g"
proof -
  show eq: "roundFloorToMultiple x g = of_int \<lfloor>x / g\<rfloor> * g"
    using assms by (simp add: roundFloorToMultiple_def)
  have "of_int \<lfloor>x / g\<rfloor> * g \<le> x"
    using of_int_floor_le [of "x / g"] unfolding pos_le_divide_eq [OF assms] .
  then show "roundFloorToMultiple x g \<le> x" by (simp add: eq)
  have "x / g < of_int \<lfloor>x / g\<rfloor> + 1" by linarith
  then have "x / g * g < (of_int \<lfloor>x / g\<rfloor> + 1) * g" using assms by (simp only: mult_less_cancel_right_pos)
  then show "x < roundFloorToMultiple x g + g" using assms by (simp add: eq algebra_simps)
qed

lemma raw_nonneg: "0 < numMonthlyPayments inp \<Longrightarrow> 0 \<le> baseForMonthly inp / of_int (numMonthlyPayments inp)"
  using baseForMonthly_nonneg [of inp] by simp

lemma reconcile_nonneg: "0 \<le> fst (reconcile inp) \<and> 0 \<le> snd (reconcile inp)"
  using balloonValue_nonneg [of inp] raw_nonneg [of inp]
  by (auto simp: reconcile_def Let_def roundCeil_nonneg)

lemma monthlyInstallment_nonneg: "0 \<le> monthlyInstallment inp"
  using reconcile_nonneg by (simp add: monthlyInstallment_def)

lemma adjustedBalloon_nonneg: "0 \<le> adjustedBalloon inp"
  using reconcile_nonneg by (simp add: adjustedBalloon_def)

lemma validExtras_pos: "e \<in> set (validExtras inp) \<Longrightarrow> 0 < amount e \<and> 1 \<le> month e \<and> month e \<le> clampedM inp"
  by (simp add: validExtras_def)

lemma month_rows_nonneg:
  assumes "0 \<le> mi" "r \<in> set (month_rows (groupByPolyfill (validExtras inp) month) mi m)"
  shows "0 \<le> ramount r"
  using assms validExtras_pos [of _ inp]
  by (auto simp: month_rows_group split: if_splits) (metis less_eq_real_def)

lemma monthlyInstallment_multiple:
  assumes "0 < roundingMultiple inp"
  shows "\<exists>k::int. 0 \<le> k \<and> monthlyInstallment inp = of_int k * roundingMultiple inp"
proof (cases "0 < numMonthlyPayments inp")
  case True
  let ?raw = "baseForMonthly inp / of_int (numMonthlyPayments inp)"
  let ?g = "roundingMultiple inp"
  have raw: "0 \<le> ?raw" using raw_nonneg [OF True] .
  have "0 \<le> ?raw / ?g" using raw assms by (rule divide_nonneg_pos)
  then have c: "0 \<le> \<lceil>?raw / ?g\<rceil>" and f: "0 \<le> \<lfloor>?raw / ?g\<rfloor>" by (simp_all add: le_ceiling_iff)
  have up: "roundCeilToMultiple ?raw ?g = of_int \<lceil>?raw / ?g\<rceil> * ?g"
    using roundCeil_multiple(1) [OF assms] .
  have down: "roundFloorToMultiple ?raw ?g = of_int \<lfloor>?raw / ?g\<rfloor> * ?g"
    using roundFloor_multiple(1) [OF assms] .
  have dn: "0 \<le> roundFloorToMultiple ?raw ?g" using f assms by (simp add: down)
  have "monthlyInstallment inp = of_int \<lceil>?raw / ?g\<rceil> * ?g \<or> monthlyInstallment inp = of_int \<lfloor>?raw / ?g\<rfloor> * ?g"
    using True dn unfolding monthlyInstallment_def reconcile_def Let_def up
    by (simp add: down max_def)
  with c f show ?thesis by blast
next
  case False
  then have "monthlyInstallment inp = of_int 0 * roundingMultiple inp"
    by (simp add: monthlyInstallment_def reconcile_def)
  then show ?thesis by blast
qed

lemma js_rem_multiple: "g \<noteq> 0 \<Longrightarrow> js_rem (of_int k * g) g = 0"
  by (simp add: js_rem_def)

lemma monthly_rows_amount:
  "r \<in> set (schedule inp) \<Longrightarrow> rtype r = Monthly \<Longrightarrow> ramount r = monthlyInstallment inp"
  by (auto simp: schedule_eq month_rows_def Let_def split: if_splits)

subsection \<open>Totals in closed form\<close>

lemma concat_map_if: "concat (map (\<lambda>m. if P m then [f m] else []) ms) = map f (filter P ms)"
  by (induction ms) auto

lemma month_rows_monthly:
  "filter (\<lambda>r. rtype r = Monthly) (month_rows (groupByPolyfill xs month) mi m)
     = (if filter (\<lambda>e. month e = m) xs = []
        then [\<lparr>rtype = Monthly, rlabel = CuotaMensual m, rmonth = m, ramount = mi\<rparr>] else [])"
  by (simp add: month_rows_group filter_empty_conv)

lemma month_rows_extra:
  "map ramount (filter (\<lambda>r. rtype r = Extra) (month_rows (groupByPolyfill xs month) mi m))
     = map amount (filter (\<lambda>e. month e = m) xs)"
  by (simp add: month_rows_group filter_empty_conv comp_def filter_id_conv)

lemma schedule_monthly:
  "filter (\<lambda>r. rtype r = Monthly) (schedule inp)
     = map (\<lambda>m. \<lparr>rtype = Monthly, rlabel = CuotaMensual m, rmonth = m,
                   ramount = monthlyInstallment inp\<rparr>)
         (filter (\<lambda>m. filter (\<lambda>e. month e = m) (validExtras inp) = []) [1..clampedM inp])"
  by (simp add: schedule_eq filter_concat comp_def month_rows_monthly concat_map_if)

lemma schedule_extra:
  "map ramount (filter (\<lambda>r. rtype r = Extra) (schedule inp))
     = concat (map (\<lambda>m. map amount (filter (\<lambda>e. month e = m) (validExtras inp)))
                 [1..clampedM inp])"
  by (simp add: schedule_eq filter_concat map_concat comp_def month_rows_extra)

lemma monthlyTotal_eq:
  "monthlyTotal (totals inp)
     = monthlyInstallment inp
       * of_nat (length (filter (\<lambda>m. filter (\<lambda>e. month e = m) (validExtras inp) = [])
                           [1..clampedM inp]))"
  by (simp add: totals_def Let_def schedule_monthly foldl_amount comp_def sum_list_triv)

lemma extrasTotal_eq:
  "extrasTotal (totals inp)
     = sum_list (concat (map (\<lambda>m. map amount (filter (\<lambda>e. month e = m) (validExtras inp)))
                 [1..clampedM inp]))"
  by (simp add: totals_def Let_def foldl_amount schedule_extra)

lemma initial_eq: "initial (totals inp) = cappedInitial inp"
  by (simp add: totals_def Let_def schedule_eq)

lemma find_append_not: "find P xs = None \<Longrightarrow> find P (xs @ ys) = find P ys"
  by (induction xs) (auto split: if_splits)

lemma month_rows_not_balloon: "r \<in> set (month_rows byM mi m) \<Longrightarrow> rtype r \<noteq> Balloon"
  by (auto simp: month_rows_def Let_def split: if_splits)

lemma balloon_eq: "balloon (totals inp) = adjustedBalloon inp"
proof -
  have "find (\<lambda>r. rtype r = Balloon)
          (concat (map (month_rows (groupByPolyfill (validExtras inp) month) (monthlyInstallment inp))
                [1..clampedM inp])) = None"
    by (auto simp: find_None_iff dest: month_rows_not_balloon)
  then show ?thesis
    by (simp add: totals_def Let_def schedule_eq find_append_not)
qed

lemma grand_eq:
  "grand (totals inp) = initial (totals inp) + monthlyTotal (totals inp)
      + extrasTotal (totals inp) + balloon (totals inp)"
  by (simp add: totals_def Let_def)

lemma sum_by_month_set:
  "(\<Sum>m\<in>{a..b}. sum_list (map amount (filter (\<lambda>e. month e = m) xs)))
     = sum_list (map amount (filter (\<lambda>e. a \<le> month e \<and> month e \<le> b) xs))"
proof (induction xs)
  case Nil
  then show ?case by simp
next
  case (Cons x xs)
  have split: "(\<Sum>m\<in>{a..b}. sum_list (map amount (filter (\<lambda>e. month e = m) (x # xs))))
      = (\<Sum>m\<in>{a..b}. (if m = month x then amount x else 0))
        + (\<Sum>m\<in>{a..b}. sum_list (map amount (filter (\<lambda>e. month e = m) xs)))"
  proof -
    have pt: "sum_list (map amount (filter (\<lambda>e. month e = m) (x # xs)))
        = (if m = month x then amount x else 0)
          + sum_list (map amount (filter (\<lambda>e. month e = m) xs))" for m
      by auto
    show ?thesis by (simp only: pt sum.distrib)
  qed
  have delta: "(\<Sum>m\<in>{a..b}. (if m = month x then amount x else 0))
      = (if a \<le> month x \<and> month x \<le> b then amount x else 0)"
    by (simp add: sum.delta)
  show ?case unfolding split delta Cons.IH by simp
qed

lemma sum_list_concat_map:
  "sum_list (concat (map f ms)) = sum_list (map (\<lambda>m. sum_list (f m)) ms)" for f :: "'a \<Rightarrow> real list"
  by (induction ms) auto

lemma sum_by_month:
  "sum_list (concat (map (\<lambda>m. map amount (filter (\<lambda>e. month e = m) xs)) [a..b]))
     = sum_list (map amount (filter (\<lambda>e. a \<le> month e \<and> month e \<le> b) xs))"
proof -
  have "sum_list (concat (map (\<lambda>m. map amount (filter (\<lambda>e. month e = m) xs)) [a..b]))
      = sum_list (map (\<lambda>m. sum_list (map amount (filter (\<lambda>e. month e = m) xs))) [a..b])"
    by (rule sum_list_concat_map)
  also have "\<dots> = (\<Sum>m\<in>{a..b}. sum_list (map amount (filter (\<lambda>e. month e = m) xs)))"
    by (simp add: sum_list_distinct_conv_sum_set)
  finally show ?thesis by (simp add: sum_by_month_set)
qed

lemma extrasTotal_extrasSum: "extrasTotal (totals inp) = extrasSum inp"
proof -
  have "filter (\<lambda>e. 1 \<le> month e \<and> month e \<le> clampedM inp) (validExtras inp) = validExtras inp"
    by (simp add: filter_id_conv validExtras_def)
  then show ?thesis
    by (simp add: extrasTotal_eq sum_by_month extrasSum_def foldl_amount)
qed

lemma free_months_count:
  "length (filter (\<lambda>m. filter (\<lambda>e. month e = m) (validExtras inp) = []) [1..clampedM inp])
     = nat (clampedM inp) - card (month ` set (validExtras inp))"
proof -
  let ?V = "month ` set (validExtras inp)"
  have sub: "?V \<subseteq> {1..clampedM inp}"
    by (auto simp: validExtras_def)
  have "{m. filter (\<lambda>e. month e = m) (validExtras inp) = []} \<inter> set [1..clampedM inp]
          = {1..clampedM inp} - ?V"
    by (auto simp: filter_empty_conv)
  then have "length (filter (\<lambda>m. filter (\<lambda>e. month e = m) (validExtras inp) = []) [1..clampedM inp])
          = card ({1..clampedM inp} - ?V)"
    by (simp add: distinct_length_filter)
  also have "\<dots> = card {1..clampedM inp} - card ?V"
    using sub by (intro card_Diff_subset) (auto intro: finite_subset)
  finally show ?thesis by simp
qed

subsection \<open>The concrete plans, evaluated\<close>

lemma scA_net: "netPrice scenarioA = 175000000"
  by (simp add: netPrice_def negotiatedPrice_def scenarioA_def clamp_def)

lemma scA_base: "baseForMonthly scenarioA = 111250000"
  by (simp add: baseForMonthly_def netPrice_def negotiatedPrice_def scenarioA_def clamp_def
    cappedInitial_def balloonValue_def extrasSum_def validExtras_def orderedExtras_def)

lemma scA_n: "numMonthlyPayments scenarioA = 36"
  by (simp add: numMonthlyPayments_def clampedM_def scenarioA_def clamp_def validExtras_def orderedExtras_def)

lemma scA_rec: "reconcile scenarioA = (3090278, 43749992)"
  unfolding reconcile_def scA_base scA_n
  by (simp add: roundCeilToMultiple_def scenarioA_def balloonValue_def netPrice_def negotiatedPrice_def clamp_def Let_def)

lemma scA_valid: "validExtras scenarioA = []"
  by (simp add: validExtras_def orderedExtras_def scenarioA_def)

lemma scA_M: "clampedM scenarioA = 36"
  by (simp add: clampedM_def clamp_def scenarioA_def)

lemma dup_valid: "validExtras planDup = extras planDup"
  by (simp add: validExtras_def orderedExtras_def planDup_def clampedM_def clamp_def)

lemma dup_M: "clampedM planDup = 36"
  by (simp add: clampedM_def clamp_def planDup_def)

lemma dup_net: "netPrice planDup = 175000000"
  by (simp add: netPrice_def negotiatedPrice_def planDup_def clamp_def)

lemma dup_base: "baseForMonthly planDup = 91250000"
  unfolding baseForMonthly_def extrasSum_def dup_valid dup_net
  by (simp add: planDup_def clamp_def cappedInitial_def balloonValue_def netPrice_def negotiatedPrice_def)

lemma dup_n: "numMonthlyPayments planDup = 34"
  unfolding numMonthlyPayments_def dup_valid dup_M by (simp add: planDup_def)

lemma dup_rec: "reconcile planDup = (2683824, 43749984)"
  unfolding reconcile_def dup_base dup_n
  by (simp add: roundCeilToMultiple_def planDup_def balloonValue_def netPrice_def negotiatedPrice_def clamp_def Let_def)

lemma dup_count: "length (filter (\<lambda>m. filter (\<lambda>e. month e = m) (validExtras planDup) = [])
                           [1..clampedM planDup]) = 35"
  unfolding free_months_count unfolding dup_valid dup_M by (simp add: planDup_def)

lemma dup_extras: "extrasTotal (totals planDup) = 20000000"
  unfolding extrasTotal_extrasSum extrasSum_def dup_valid by (simp add: planDup_def)

lemma dup_initial: "cappedInitial planDup = 20000000"
  unfolding cappedInitial_def dup_net by (simp add: planDup_def clamp_def)

lemma dup_grand: "grand (totals planDup) = 177683824"
  unfolding grand_eq initial_eq balloon_eq dup_extras monthlyTotal_eq dup_count
    monthlyInstallment_def adjustedBalloon_def dup_rec dup_initial
  by simp

lemma small_M: "clampedM planSmall = 3"
  by (simp add: clampedM_def clamp_def planSmall_def)

lemma small_valid: "validExtras planSmall = [\<lparr>extra_id = ''a'', month = 2, amount = 10000000\<rparr>]"
  by (simp add: validExtras_def orderedExtras_def planSmall_def clampedM_def clamp_def)

lemma small_net: "netPrice planSmall = 175000000"
  by (simp add: netPrice_def negotiatedPrice_def planSmall_def clamp_def)

lemma small_balloon: "balloonValue planSmall = 43750000"
  unfolding balloonValue_def small_net by (simp add: planSmall_def clamp_def)

lemma small_initial: "cappedInitial planSmall = 20000000"
  unfolding cappedInitial_def small_net by (simp add: planSmall_def clamp_def)

lemma small_base: "baseForMonthly planSmall = 101250000"
  unfolding baseForMonthly_def extrasSum_def small_valid small_net small_balloon small_initial
  by simp

lemma small_n: "numMonthlyPayments planSmall = 2"
  unfolding numMonthlyPayments_def small_valid small_M by simp

lemma small_g: "roundingMultiple planSmall = 50000"
  by (simp add: planSmall_def)

lemma small_rec: "reconcile planSmall = (50650000, 43700000)"
  unfolding reconcile_def small_base small_n small_balloon small_g
  by (simp add: roundCeilToMultiple_def Let_def)

lemma small_schedule:
  "schedule planSmall =
     [\<lparr>rtype = Initial, rlabel = CuotaInicial, rmonth = 0, ramount = 20000000\<rparr>,
      \<lparr>rtype = Monthly, rlabel = CuotaMensual 1, rmonth = 1, ramount = 50650000\<rparr>,
      \<lparr>rtype = Extra, rlabel = Extraordinaria 2, rmonth = 2, ramount = 10000000\<rparr>,
      \<lparr>rtype = Monthly, rlabel = CuotaMensual 3, rmonth = 3, ramount = 50650000\<rparr>,
      \<lparr>rtype = Balloon, rlabel = UltimaCuota, rmonth = 4, ramount = 43700000\<rparr>]"
  unfolding schedule_eq small_valid small_M small_initial monthlyInstallment_def
    adjustedBalloon_def small_rec
  by (simp add: upto_rec1 month_rows_group)

lemma down_M: "clampedM planDown = 3"
  by (simp add: clampedM_def clamp_def planDown_def)

lemma down_valid: "validExtras planDown = []"
  by (simp add: validExtras_def orderedExtras_def planDown_def)

lemma down_net: "netPrice planDown = 175000000"
  by (simp add: netPrice_def negotiatedPrice_def planDown_def clamp_def)

lemma down_balloon: "balloonValue planDown = 0"
  unfolding balloonValue_def down_net by (simp add: planDown_def clamp_def)

lemma down_initial: "cappedInitial planDown = 20000000"
  unfolding cappedInitial_def down_net by (simp add: planDown_def clamp_def)

lemma down_base: "baseForMonthly planDown = 155000000"
  unfolding baseForMonthly_def extrasSum_def down_valid down_net down_balloon down_initial
  by simp

lemma down_n: "numMonthlyPayments planDown = 3"
  unfolding numMonthlyPayments_def down_valid down_M by simp

lemma down_g: "roundingMultiple planDown = 50000"
  by (simp add: planDown_def)

lemma down_rec: "reconcile planDown = (51650000, 50000)"
  unfolding reconcile_def down_base down_n down_balloon down_g
  by (simp add: roundCeilToMultiple_def roundFloorToMultiple_def Let_def)

lemma crowded_M: "clampedM planCrowded = 2"
  by (simp add: clampedM_def clamp_def planCrowded_def)

lemma crowded_valid: "validExtras planCrowded = extras planCrowded"
  by (simp add: validExtras_def orderedExtras_def planCrowded_def clampedM_def clamp_def)

subsection \<open>Dates of the rows\<close>

lemma trunc_of_int: "ToIntegerOrInfinity (of_int k) = k"
  by (simp add: ToIntegerOrInfinity_def)

lemma MakeDay_renorm: "MakeDay (y + m div 12) (m mod 12) = MakeDay y m"
  by (simp add: MakeDay_def)

lemma first_of_month_Some:
  assumes "first_of_month y m = Some d"
  shows "year d = y + m div 12" and "mon d = m mod 12"
    and "first_of_month (year d) (mon d) = Some d"
proof -
  from assms obtain t where t: "TimeClip (MakeDay y m * msPerDay) = Some t"
    and d: "d = \<lparr>year = y + m div 12, mon = m mod 12\<rparr>"
    by (auto simp: first_of_month_def split: option.splits)
  show "year d = y + m div 12" and "mon d = m mod 12" by (simp_all add: d)
  show "first_of_month (year d) (mon d) = Some d"
    by (simp add: d first_of_month_def MakeDay_renorm t)
qed

lemma fullyear_ge:
  assumes "0 \<le> y"
  shows "100 \<le> ToIntegerOrInfinity (MakeFullYear y)"
proof -
  have yi: "ToIntegerOrInfinity y = \<lfloor>y\<rfloor>" using assms by (simp add: ToIntegerOrInfinity_def)
  have nn: "0 \<le> \<lfloor>y\<rfloor>" using assms by simp
  show ?thesis
  proof (cases "\<lfloor>y\<rfloor> \<le> 99")
    case True
    then have "MakeFullYear y = of_int (1900 + \<lfloor>y\<rfloor>)"
      using nn by (simp add: MakeFullYear_def yi)
    then have "ToIntegerOrInfinity (MakeFullYear y) = 1900 + \<lfloor>y\<rfloor>"
      by (simp only: trunc_of_int)
    with nn show ?thesis by simp
  next
    case False
    then have "MakeFullYear y = y" by (simp add: MakeFullYear_def yi)
    with False show ?thesis by (simp add: yi)
  qed
qed

lemma month_index_ge:
  assumes "0 \<le> v" "v \<noteq> 0"
  shows "0 \<le> ToIntegerOrInfinity (v - 1)"
proof (cases "0 \<le> v - 1")
  case True
  then show ?thesis by (simp add: ToIntegerOrInfinity_def)
next
  case False
  then have "- 1 < v - 1" using assms by simp
  then have "0 \<le> \<lceil>v - 1\<rceil>" by linarith
  with False show ?thesis by (simp add: ToIntegerOrInfinity_def)
qed

lemma first_of_month_normal:
  assumes "100 \<le> y" "0 \<le> m" "first_of_month y m = Some d"
  shows "normal_date d"
proof -
  have "0 \<le> m div 12" using assms(2) by (simp add: pos_imp_zdiv_nonneg_iff)
  then have "100 \<le> y + m div 12" using assms(1) by linarith
  then show ?thesis
    using first_of_month_Some [OF assms(3)] by (simp add: normal_date_def)
qed

lemma parse_normal:
  assumes "no_minus (fst ym)" "no_minus (snd ym)" "parseMonthStr ym = Some d"
  shows "normal_date d"
proof -
  obtain yv where y: "fst ym = Num yv"
    using assms(3) by (cases "fst ym") (simp_all add: parseMonthStr_def date_utc_def Let_def)
  have y0: "0 \<le> yv" using assms(1) by (simp add: y no_minus_def)
  show ?thesis
  proof (cases "snd ym")
    case NaN
    then have "first_of_month (ToIntegerOrInfinity (MakeFullYear yv)) 0 = Some d"
      using assms(3) by (simp add: parseMonthStr_def date_utc_def Let_def y ToIntegerOrInfinity_def)
    then show ?thesis using fullyear_ge [OF y0] by (intro first_of_month_normal) simp_all
  next
    case Infinity
    then show ?thesis
      using assms(3) by (simp add: parseMonthStr_def date_utc_def Let_def y)
  next
    case (Num mv)
    have m0: "0 \<le> mv" using assms(2) by (simp add: Num no_minus_def)
    show ?thesis
    proof (cases "mv = 0")
      case True
      then have "first_of_month (ToIntegerOrInfinity (MakeFullYear yv)) 0 = Some d"
        using assms(3) Num
        by (simp add: parseMonthStr_def date_utc_def Let_def y ToIntegerOrInfinity_def)
      then show ?thesis using fullyear_ge [OF y0] by (intro first_of_month_normal) simp_all
    next
      case False
      then have "first_of_month (ToIntegerOrInfinity (MakeFullYear yv))
                   (ToIntegerOrInfinity (mv - 1)) = Some d"
        using assms(3) Num by (simp add: parseMonthStr_def date_utc_def Let_def y)
      then show ?thesis
        using fullyear_ge [OF y0] month_index_ge [OF m0 False]
        by (intro first_of_month_normal) simp_all
    qed
  qed
qed

lemma addMonths_None: "addMonths None k = None"
  by (simp add: addMonths_def getUTCFullYear_def getUTCMonth_def date_utc_def)

lemma addMonths_normal_eq:
  assumes "normal_date d"
  shows "addMonths (Some d) k = first_of_month (year d) (mon d + k)"
proof -
  have y: "100 \<le> year d" and again: "first_of_month (year d) (mon d) = Some d"
    using assms by (simp_all add: normal_date_def)
  have "MakeFullYear (of_int (year d)) = of_int (year d)"
    using y by (simp add: MakeFullYear_def trunc_of_int)
  then have "date_utc (getUTCFullYear (Some d)) (getUTCMonth (Some d)) = Some d"
    by (simp add: date_utc_def getUTCFullYear_def getUTCMonth_def trunc_of_int again)
  then show ?thesis by (simp add: addMonths_def)
qed

lemma addMonths_zero: "normal_date d \<Longrightarrow> addMonths (Some d) 0 = Some d"
  by (simp add: addMonths_normal_eq) (simp add: normal_date_def)

lemma anchor_offset_zero:
  assumes "no_minus (fst ym)" "no_minus (snd ym)"
  shows "addMonths (parseMonthStr ym) 0 = parseMonthStr ym"
proof (cases "parseMonthStr ym")
  case None
  then show ?thesis by (simp add: addMonths_None)
next
  case (Some d)
  then show ?thesis using parse_normal [OF assms Some] by (simp add: addMonths_zero)
qed

lemma monthNames_distinct: "distinct monthNamesEs"
  by (simp add: monthNamesEs_def)

lemma format_mon_neq:
  assumes "0 \<le> mon d" "mon d < 12" "0 \<le> mon e" "mon e < 12" "mon d \<noteq> mon e"
  shows "formatMonthEs (Some d) \<noteq> formatMonthEs (Some e)"
proof -
  have "nat (mon d) < length monthNamesEs" "nat (mon e) < length monthNamesEs"
    using assms by (simp_all add: monthNamesEs_def)
  moreover have "nat (mon d) \<noteq> nat (mon e)" using assms by simp
  ultimately have "monthNamesEs ! nat (mon d) \<noteq> monthNamesEs ! nat (mon e)"
    using monthNames_distinct by (simp add: nth_eq_iff_index_eq)
  with assms show ?thesis by (simp add: formatMonthEs_def)
qed

lemma next_month_differs:
  assumes "normal_date b" "addMonths (Some b) (k + 1) = Some d"
  shows "formatMonthEs (addMonths (Some b) (k + 1)) \<noteq> formatMonthEs (addMonths (Some b) k)"
proof (cases "addMonths (Some b) k")
  case None
  then show ?thesis by (simp add: assms(2) formatMonthEs_def)
next
  case (Some e)
  have d: "mon d = (mon b + (k + 1)) mod 12"
    using assms(2) first_of_month_Some(2) unfolding addMonths_normal_eq [OF assms(1)] by blast
  have e: "mon e = (mon b + k) mod 12"
    using Some first_of_month_Some(2) unfolding addMonths_normal_eq [OF assms(1)] by blast
  have ne: "(a + 1) mod 12 \<noteq> a mod 12" for a :: int
  proof
    assume "(a + 1) mod 12 = a mod 12"
    then have "((a + 1) - a) mod 12 = 0" by (metis mod_diff_cong mod_0 diff_self)
    then show False by simp
  qed
  have "mon b + (k + 1) = (mon b + k) + 1" by simp
  then have "mon d \<noteq> mon e" using ne [of "mon b + k"] d e by metis
  moreover have "0 \<le> mon d" "mon d < 12" "0 \<le> mon e" "mon e < 12" by (simp_all add: d e)
  ultimately show ?thesis unfolding assms(2) Some by (intro format_mon_neq)
qed

text \<open>
  When the date of the balloon row is a valid date, its label differs from the label of
  the rows of the last financing month.
\<close>

lemma balloon_label_differs_when_valid:
  assumes "no_minus (fst (startMonth inp))" "no_minus (snd (startMonth inp))"
    and "addMonths (parseMonthStr (startMonth inp)) (clampedM inp) = Some d"
  shows "formatMonthEs (addMonths (parseMonthStr (startMonth inp)) (clampedM inp))
           \<noteq> formatMonthEs (addMonths (parseMonthStr (startMonth inp)) (clampedM inp - 1))"
proof (cases "parseMonthStr (startMonth inp)")
  case None
  then show ?thesis using assms(3) by (simp add: addMonths_None)
next
  case (Some b)
  have nb: "normal_date b" using parse_normal [OF assms(1,2) Some] .
  have "addMonths (Some b) (clampedM inp - 1 + 1) = Some d" using assms(3) Some by simp
  from next_month_differs [OF nb this] show ?thesis by (simp add: Some)
qed

lemma truncate_extend: "row.truncate (row.extend r \<lparr>rdate = d\<rparr>) = r"
  by (simp add: row.truncate_def row.extend_def)

lemma dated_fields:
  "rtype (row.extend r \<lparr>rdate = d\<rparr>) = rtype r"
  "rmonth (row.extend r \<lparr>rdate = d\<rparr>) = rmonth r"
  "ramount (row.extend r \<lparr>rdate = d\<rparr>) = ramount r"
  "rdate (row.extend r \<lparr>rdate = d\<rparr>) = d"
  by (simp_all add: row.extend_def)

lemma schedule_row_shape:
  assumes "r \<in> set (schedule inp)"
  shows "(rtype r = Initial \<longrightarrow> rmonth r = 0)
       \<and> (rtype r = Monthly \<or> rtype r = Extra \<longrightarrow> 1 \<le> rmonth r \<and> rmonth r \<le> clampedM inp)
       \<and> (rtype r = Balloon \<longrightarrow> rmonth r = clampedM inp + 1)"
  using assms by (auto simp: schedule_eq month_rows_def Let_def split: if_splits)

lemma dated_in_schedule:
  assumes "r \<in> set (scheduleWithDates inp)"
  shows "\<exists>r0 \<in> set (schedule inp).
           r = row.extend r0
                 \<lparr>rdate = formatMonthEs (addMonths (parseMonthStr (startMonth inp))
                                          (max 0 (rmonth r0 - 1)))\<rparr>"
  using assms unfolding scheduleWithDates_def Let_def by auto

lemma startMonth_pricing:
  "netPrice (inp\<lparr>startMonth := s\<rparr>) = netPrice inp"
  "clampedM (inp\<lparr>startMonth := s\<rparr>) = clampedM inp"
  by (simp_all add: netPrice_def negotiatedPrice_def clampedM_def)

lemma startMonth_values:
  "balloonValue (inp\<lparr>startMonth := s\<rparr>) = balloonValue inp"
  "cappedInitial (inp\<lparr>startMonth := s\<rparr>) = cappedInitial inp"
  "validExtras (inp\<lparr>startMonth := s\<rparr>) = validExtras inp"
  by (simp_all add: balloonValue_def cappedInitial_def validExtras_def orderedExtras_def
      startMonth_pricing)

lemma startMonth_sums:
  "extrasSum (inp\<lparr>startMonth := s\<rparr>) = extrasSum inp"
  "numMonthlyPayments (inp\<lparr>startMonth := s\<rparr>) = numMonthlyPayments inp"
  by (simp_all add: extrasSum_def numMonthlyPayments_def startMonth_pricing startMonth_values)

lemma startMonth_base: "baseForMonthly (inp\<lparr>startMonth := s\<rparr>) = baseForMonthly inp"
  by (simp add: baseForMonthly_def startMonth_pricing startMonth_values startMonth_sums)

lemma startMonth_reconcile: "reconcile (inp\<lparr>startMonth := s\<rparr>) = reconcile inp"
  unfolding reconcile_def startMonth_base startMonth_sums startMonth_values
  by (simp add: Let_def)

lemma schedule_startMonth: "schedule (inp\<lparr>startMonth := s\<rparr>) = schedule inp"
  unfolding schedule_def monthlyInstallment_def adjustedBalloon_def startMonth_reconcile
    startMonth_pricing startMonth_values ..

lemma first_of_month_2025:
  "first_of_month 2025 0 = Some \<lparr>year = 2025, mon = 0\<rparr>"
  "first_of_month 2025 1 = Some \<lparr>year = 2025, mon = 1\<rparr>"
  "first_of_month 2025 2 = Some \<lparr>year = 2025, mon = 2\<rparr>"
  "first_of_month 2025 3 = Some \<lparr>year = 2025, mon = 3\<rparr>"
  by (simp_all add: first_of_month_def TimeClip_def MakeDay_def DayFromYear_def
      monthStartDay_def InLeapYear_def msPerDay_def)

lemma small_start: "parseMonthStr (startMonth planSmall) = Some \<lparr>year = 2025, mon = 0\<rparr>"
  by (simp add: planSmall_def parseMonthStr_def date_utc_def ToIntegerOrInfinity_def
      MakeFullYear_def first_of_month_2025)

lemma format_2025:
  "formatMonthEs (addMonths (Some \<lparr>year = 2025, mon = 0\<rparr>) 0) = (''enero'', Some 2025)"
  "formatMonthEs (addMonths (Some \<lparr>year = 2025, mon = 0\<rparr>) 1) = (''febrero'', Some 2025)"
  "formatMonthEs (addMonths (Some \<lparr>year = 2025, mon = 0\<rparr>) 2) = (''marzo'', Some 2025)"
  "formatMonthEs (addMonths (Some \<lparr>year = 2025, mon = 0\<rparr>) 3) = (''abril'', Some 2025)"
  by (simp_all add: formatMonthEs_def addMonths_def date_utc_def getUTCFullYear_def
      getUTCMonth_def ToIntegerOrInfinity_def MakeFullYear_def first_of_month_2025
      monthNamesEs_def)

lemma small_dated:
  "scheduleWithDates planSmall =
     [row.extend \<lparr>rtype = Initial, rlabel = CuotaInicial, rmonth = 0, ramount = 20000000\<rparr>
        \<lparr>rdate = (''enero'', Some 2025)\<rparr>,
      row.extend \<lparr>rtype = Monthly, rlabel = CuotaMensual 1, rmonth = 1, ramount = 50650000\<rparr>
        \<lparr>rdate = (''enero'', Some 2025)\<rparr>,
      row.extend \<lparr>rtype = Extra, rlabel = Extraordinaria 2, rmonth = 2, ramount = 10000000\<rparr>
        \<lparr>rdate = (''febrero'', Some 2025)\<rparr>,
      row.extend \<lparr>rtype = Monthly, rlabel = CuotaMensual 3, rmonth = 3, ramount = 50650000\<rparr>
        \<lparr>rdate = (''marzo'', Some 2025)\<rparr>,
      row.extend \<lparr>rtype = Balloon, rlabel = UltimaCuota, rmonth = 4, ramount = 43700000\<rparr>
        \<lparr>rdate = (''abril'', Some 2025)\<rparr>]"
  unfolding scheduleWithDates_def Let_def small_schedule small_start
  by (simp add: format_2025)

text \<open>
  A plan that starts in September 275760, the last month a date can hold: the rows of
  months 2 and 3 and the balloon row have no valid date and all carry the label of the
  Invalid Date.
\<close>

lemma late_plan: "planLate = planSmall\<lparr>startMonth := (Num 275760, Num 9)\<rparr>"
  by (simp add: planLate_def planSmall_def)

lemma first_of_month_275760:
  "first_of_month 275760 8 = Some \<lparr>year = 275760, mon = 8\<rparr>"
  "first_of_month 275760 9 = None"
  "first_of_month 275760 10 = None"
  "first_of_month 275760 11 = None"
  by (simp_all add: first_of_month_def TimeClip_def MakeDay_def DayFromYear_def
      monthStartDay_def InLeapYear_def msPerDay_def)

lemma late_start: "parseMonthStr (startMonth planLate) = Some \<lparr>year = 275760, mon = 8\<rparr>"
  by (simp add: planLate_def parseMonthStr_def date_utc_def ToIntegerOrInfinity_def
      MakeFullYear_def first_of_month_275760)

lemma format_275760:
  "formatMonthEs (addMonths (Some \<lparr>year = 275760, mon = 8\<rparr>) 0) = (''septiembre'', Some 275760)"
  "formatMonthEs (addMonths (Some \<lparr>year = 275760, mon = 8\<rparr>) 1) = (''undefined'', None)"
  "formatMonthEs (addMonths (Some \<lparr>year = 275760, mon = 8\<rparr>) 2) = (''undefined'', None)"
  "formatMonthEs (addMonths (Some \<lparr>year = 275760, mon = 8\<rparr>) 3) = (''undefined'', None)"
  by (simp_all add: formatMonthEs_def addMonths_def date_utc_def getUTCFullYear_def
      getUTCMonth_def ToIntegerOrInfinity_def MakeFullYear_def first_of_month_275760
      monthNamesEs_def)

lemma late_dated:
  "scheduleWithDates planLate =
     [row.extend \<lparr>rtype = Initial, rlabel = CuotaInicial, rmonth = 0, ramount = 20000000\<rparr>
        \<lparr>rdate = (''septiembre'', Some 275760)\<rparr>,
      row.extend \<lparr>rtype = Monthly, rlabel = CuotaMensual 1, rmonth = 1, ramount = 50650000\<rparr>
        \<lparr>rdate = (''septiembre'', Some 275760)\<rparr>,
      row.extend \<lparr>rtype = Extra, rlabel = Extraordinaria 2, rmonth = 2, ramount = 10000000\<rparr>
        \<lparr>rdate = (''undefined'', None)\<rparr>,
      row.extend \<lparr>rtype = Monthly, rlabel = CuotaMensual 3, rmonth = 3, ramount = 50650000\<rparr>
        \<lparr>rdate = (''undefined'', None)\<rparr>,
      row.extend \<lparr>rtype = Balloon, rlabel = UltimaCuota, rmonth = 4, ramount = 43700000\<rparr>
        \<lparr>rdate = (''undefined'', None)\<rparr>]"
proof -
  have s: "schedule planLate = schedule planSmall"
    unfolding late_plan by (rule schedule_startMonth)
  show ?thesis
    unfolding scheduleWithDates_def Let_def s small_schedule late_start
    by (simp add: format_275760)
qed

subsection \<open>When the rows do add up\<close>

text \<open>
  The reconciliation moves the rounding difference into the balloon, so the installment
  times the number of monthly slots plus the adjusted balloon is the base plus the balloon
  target. The rows then add up to the net price exactly, provided that no two valid
  extraordinary entries share a month (the number of monthly rows is then the number of
  monthly slots), that at least one monthly slot is left, and that the initial payment,
  the balloon target and the extraordinary payments together do not exceed the net price.
\<close>

lemma roundFloor_le: "roundFloorToMultiple x g \<le> x"
proof (cases "0 < g")
  case True
  then show ?thesis by (rule roundFloor_multiple(2))
next
  case False
  then show ?thesis by (simp add: roundFloorToMultiple_def)
qed

lemma reconcile_sum:
  assumes "0 < numMonthlyPayments inp"
  shows "fst (reconcile inp) * of_int (numMonthlyPayments inp) + snd (reconcile inp)
           = baseForMonthly inp + balloonValue inp"
proof -
  let ?n = "real_of_int (numMonthlyPayments inp)"
  let ?raw = "baseForMonthly inp / ?n"
  let ?g = "roundingMultiple inp"
  let ?down = "max 0 (roundFloorToMultiple ?raw ?g)"
  have n: "0 < ?n" using assms by simp
  have raw: "0 \<le> ?raw" using raw_nonneg [OF assms] .
  have "?down \<le> ?raw" using raw roundFloor_le [of ?raw ?g] by simp
  then have "?down * ?n \<le> ?raw * ?n" using n by (simp only: mult_le_cancel_right_pos)
  then have le: "?down * ?n \<le> baseForMonthly inp" using n by simp
  have "0 \<le> balloonValue inp + (baseForMonthly inp - ?down * ?n)"
    using le balloonValue_nonneg [of inp] by linarith
  then have mx: "max 0 (balloonValue inp + (baseForMonthly inp - ?down * ?n))
      = balloonValue inp + (baseForMonthly inp - ?down * ?n)"
    by (rule max_absorb2)
  show ?thesis
    using assms unfolding reconcile_def Let_def mx by simp
qed

lemma free_months_distinct:
  assumes "distinct (map month (validExtras inp))" "0 < numMonthlyPayments inp"
  shows "real (length (filter (\<lambda>m. filter (\<lambda>e. month e = m) (validExtras inp) = [])
                         [1..clampedM inp]))
           = of_int (numMonthlyPayments inp)"
proof -
  have "card (month ` set (validExtras inp)) = length (validExtras inp)"
    using distinct_card [OF assms(1)] by simp
  moreover have "int (length (validExtras inp)) < clampedM inp"
    using assms(2) by (simp add: numMonthlyPayments_def)
  ultimately show ?thesis
    unfolding free_months_count using assms(2)
    by (simp add: numMonthlyPayments_def of_nat_diff)
qed

lemma conservation_when_consistent:
  assumes "distinct (map month (validExtras inp))"
    and "0 < numMonthlyPayments inp"
    and "cappedInitial inp + balloonValue inp + extrasSum inp \<le> netPrice inp"
  shows "grand (totals inp) = netPrice inp"
proof -
  have base: "baseForMonthly inp
      = netPrice inp - cappedInitial inp - balloonValue inp - extrasSum inp"
    using assms(3) by (simp add: baseForMonthly_def)
  have "grand (totals inp)
      = cappedInitial inp
        + monthlyInstallment inp * of_int (numMonthlyPayments inp)
        + extrasSum inp + adjustedBalloon inp"
    unfolding grand_eq initial_eq balloon_eq extrasTotal_extrasSum monthlyTotal_eq
      free_months_distinct [OF assms(1,2)] ..
  also have "\<dots> = cappedInitial inp + extrasSum inp
                   + (baseForMonthly inp + balloonValue inp)"
    using reconcile_sum [OF assms(2)]
    by (simp add: monthlyInstallment_def adjustedBalloon_def)
  finally show ?thesis by (simp add: base)
qed

section \<open>The claims\<close>

subsection \<open>Conservation of the total\<close>

text \<open>
  Claim C1: the rows add up to the net price within one currency unit. The component
  checks exactly this in its first console test (\<^const>\<open>ok1\<close>). The schedule violates it
  on the default plan (500 square metres at 350000, 36 months, 25 per cent balloon, initial
  payment 20000000, no rounding) once two extraordinary payments of 10000000 both target
  month 12: the installment is computed for 34 monthly slots, and 35 monthly rows are
  emitted. The rows add up to 177683824, the net price is 175000000, and the console test
  fails. (Lemma \<open>conservation_when_consistent\<close> gives conditions under which the rows do
  add up.)
\<close>

theorem C1_conservation_fails_on_shared_month:
  "numMonthlyPayments planDup = 34
   \<and> length (filter (\<lambda>r. rtype r = Monthly) (schedule planDup)) = 35
   \<and> monthlyInstallment planDup = 2683824
   \<and> adjustedBalloon planDup = 43749984
   \<and> grand (totals planDup) = 177683824
   \<and> netPrice planDup = 175000000
   \<and> \<not> ok1 planDup"
proof -
  have rows: "length (filter (\<lambda>r. rtype r = Monthly) (schedule planDup)) = 35"
    by (simp only: schedule_monthly length_map dup_count)
  have bad: "\<not> ok1 planDup"
    by (simp add: ok1_def dup_grand dup_net)
  show ?thesis
    using rows bad
    by (simp add: dup_n dup_grand dup_net monthlyInstallment_def adjustedBalloon_def dup_rec)
qed

subsection \<open>Scenario A\<close>

text \<open>
  Claim C7: with net price 175000000, capped initial payment 20000000, balloon target
  43750000, 36 financing months, no extraordinary payments and no rounding, the base for
  the monthly installments is 111250000, the installment is 3090278, the monthly rows add
  up to 111250008 and the adjusted balloon is 43749992.
\<close>

theorem C7_scenario_A:
  "netPrice scenarioA = 175000000
   \<and> cappedInitial scenarioA = 20000000
   \<and> balloonValue scenarioA = 43750000
   \<and> clampedM scenarioA = 36
   \<and> validExtras scenarioA = []
   \<and> roundingMultiple scenarioA = 0
   \<and> baseForMonthly scenarioA = 111250000
   \<and> monthlyInstallment scenarioA = 3090278
   \<and> monthlyTotal (totals scenarioA) = 111250008
   \<and> adjustedBalloon scenarioA = 43749992"
proof -
  have total: "monthlyTotal (totals scenarioA) = 111250008"
    unfolding monthlyTotal_eq free_months_count
    unfolding scA_valid scA_M monthlyInstallment_def scA_rec by simp
  have initial: "cappedInitial scenarioA = 20000000"
    unfolding cappedInitial_def scA_net by (simp add: scenarioA_def clamp_def)
  have balloon: "balloonValue scenarioA = 43750000"
    unfolding balloonValue_def scA_net by (simp add: scenarioA_def clamp_def)
  have g: "roundingMultiple scenarioA = 0"
    by (simp add: scenarioA_def)
  show ?thesis
    using total initial balloon g
    by (simp add: scA_net scA_M scA_valid scA_base monthlyInstallment_def adjustedBalloon_def
        scA_rec)
qed

subsection \<open>Rounding conformance\<close>

text \<open>
  Claim C3: when the rounding granularity is positive, the amount of every monthly row of
  the schedule is an exact multiple of it, whichever branch of the reconciliation was
  taken: the remainder of the amount by the granularity is zero, and the amount is an
  integer times the granularity.
\<close>

theorem C3_rounding_conformance:
  assumes "0 < roundingMultiple inp"
  shows "\<forall>r \<in> set (schedule inp). rtype r = Monthly \<longrightarrow>
           js_rem (ramount r) (roundingMultiple inp) = 0 \<and>
           (\<exists>k::int. ramount r = of_int k * roundingMultiple inp)"
proof (intro ballI impI)
  fix r assume "r \<in> set (schedule inp)" "rtype r = Monthly"
  then have a: "ramount r = monthlyInstallment inp" by (rule monthly_rows_amount)
  obtain k :: int where k: "monthlyInstallment inp = of_int k * roundingMultiple inp"
    using monthlyInstallment_multiple [OF assms] by blast
  have "js_rem (of_int k * roundingMultiple inp) (roundingMultiple inp) = 0"
    using assms by (intro js_rem_multiple) simp
  with a k show "js_rem (ramount r) (roundingMultiple inp) = 0 \<and>
           (\<exists>k::int. ramount r = of_int k * roundingMultiple inp)" by auto
qed

theorem C3_rounding_conformance_witness:
  "0 < roundingMultiple planSmall
   \<and> \<lparr>rtype = Monthly, rlabel = CuotaMensual 1, rmonth = 1, ramount = 50650000\<rparr>
       \<in> set (schedule planSmall)
   \<and> js_rem 50650000 50000 = 0
   \<and> (\<exists>k::int. (50650000::real) = of_int k * 50000)"
proof -
  have g: "0 < roundingMultiple planSmall" by (simp add: small_g)
  have mem: "\<lparr>rtype = Monthly, rlabel = CuotaMensual 1, rmonth = 1, ramount = 50650000\<rparr>
       \<in> set (schedule planSmall)"
    by (simp add: small_schedule)
  show ?thesis
    using g mem C3_rounding_conformance [OF g, THEN bspec, OF mem]
    by (simp add: small_g)
qed

subsection \<open>Non-negativity\<close>

text \<open>
  Claim C4: no row of the schedule has a negative amount, and the adjusted balloon is
  never negative, whichever branch of the reconciliation was taken. This holds for every
  input: the pricing stage clamps the area and the price, so the net price and the balloon
  target are never negative.
\<close>

theorem C4_non_negativity:
  "(\<forall>r \<in> set (schedule inp). 0 \<le> ramount r) \<and> 0 \<le> adjustedBalloon inp"
  using cappedInitial_nonneg [of inp] adjustedBalloon_nonneg [of inp]
    month_rows_nonneg [OF monthlyInstallment_nonneg, of _ inp]
  by (auto simp: schedule_eq)

theorem C4_non_negativity_witness:
  "\<lparr>rtype = Balloon, rlabel = UltimaCuota, rmonth = 4, ramount = 50000\<rparr>
       \<in> set (schedule planDown)
   \<and> (0::real) \<le> 50000
   \<and> adjustedBalloon planDown = 50000
   \<and> 0 \<le> adjustedBalloon planDown"
proof -
  have bal: "adjustedBalloon planDown = 50000"
    by (simp add: adjustedBalloon_def down_rec)
  have mem: "\<lparr>rtype = Balloon, rlabel = UltimaCuota, rmonth = 4, ramount = 50000\<rparr>
       \<in> set (schedule planDown)"
    by (simp add: schedule_eq bal down_M)
  show ?thesis
    using mem bal C4_non_negativity [of planDown, THEN conjunct1, THEN bspec, OF mem]
      C4_non_negativity [of planDown, THEN conjunct2]
    by simp
qed

subsection \<open>Reconciliation tie-break\<close>

text \<open>
  Claim C2: when there is at least one monthly slot, the raw installment is rounded up to
  the nearest multiple of the granularity (to the next whole unit when the granularity
  is 0) and the balloon shrinks by the surplus. That branch is taken exactly when the
  shrunk balloon is not negative. Otherwise the installment is the raw installment
  rounded down to the nearest multiple, not below 0, and the balloon is the target plus
  the shortfall, not below 0.
\<close>

theorem C2_reconciliation_tie_break:
  assumes "0 < numMonthlyPayments inp"
  shows "(let n = of_int (numMonthlyPayments inp);
              raw = baseForMonthly inp / n;
              g = roundingMultiple inp;
              up = roundCeilToMultiple raw g;
              down = roundFloorToMultiple raw g;
              shrunk = balloonValue inp - (up * n - baseForMonthly inp)
          in (0 < g \<longrightarrow> (\<exists>k::int. up = of_int k * g) \<and> raw \<le> up \<and> up < raw + g
                        \<and> (\<exists>k::int. down = of_int k * g) \<and> down \<le> raw \<and> raw < down + g)
           \<and> (g = 0 \<longrightarrow> up = of_int \<lceil>raw\<rceil> \<and> down = of_int \<lfloor>raw\<rfloor>)
           \<and> (0 \<le> shrunk \<longrightarrow> monthlyInstallment inp = up \<and> adjustedBalloon inp = shrunk)
           \<and> (shrunk < 0 \<longrightarrow>
                 monthlyInstallment inp = max 0 down
                 \<and> adjustedBalloon inp
                     = max 0 (balloonValue inp + (baseForMonthly inp - max 0 down * n))))"
proof -
  let ?n = "real_of_int (numMonthlyPayments inp)"
  let ?raw = "baseForMonthly inp / ?n"
  let ?g = "roundingMultiple inp"
  have pos: "0 < ?g \<Longrightarrow> (\<exists>k::int. roundCeilToMultiple ?raw ?g = of_int k * ?g)
      \<and> ?raw \<le> roundCeilToMultiple ?raw ?g \<and> roundCeilToMultiple ?raw ?g < ?raw + ?g
      \<and> (\<exists>k::int. roundFloorToMultiple ?raw ?g = of_int k * ?g)
      \<and> roundFloorToMultiple ?raw ?g \<le> ?raw \<and> ?raw < roundFloorToMultiple ?raw ?g + ?g"
    using roundCeil_multiple [of ?g ?raw] roundFloor_multiple [of ?g ?raw] by blast
  have zero: "?g = 0 \<Longrightarrow> roundCeilToMultiple ?raw ?g = of_int \<lceil>?raw\<rceil>
      \<and> roundFloorToMultiple ?raw ?g = of_int \<lfloor>?raw\<rfloor>"
    by (simp add: roundCeilToMultiple_def roundFloorToMultiple_def)
  have branch: "(0 \<le> balloonValue inp - (roundCeilToMultiple ?raw ?g * ?n - baseForMonthly inp) \<longrightarrow>
        monthlyInstallment inp = roundCeilToMultiple ?raw ?g
        \<and> adjustedBalloon inp
            = balloonValue inp - (roundCeilToMultiple ?raw ?g * ?n - baseForMonthly inp))
     \<and> (balloonValue inp - (roundCeilToMultiple ?raw ?g * ?n - baseForMonthly inp) < 0 \<longrightarrow>
        monthlyInstallment inp = max 0 (roundFloorToMultiple ?raw ?g)
        \<and> adjustedBalloon inp
            = max 0 (balloonValue inp
                      + (baseForMonthly inp - max 0 (roundFloorToMultiple ?raw ?g) * ?n)))"
    using assms by (simp add: monthlyInstallment_def adjustedBalloon_def reconcile_def Let_def)
  show ?thesis
    unfolding Let_def using pos zero branch by blast
qed

theorem C2_reconciliation_tie_break_witness:
  "0 < numMonthlyPayments planSmall \<and> 0 < roundingMultiple planSmall
   \<and> monthlyInstallment planSmall = 50650000 \<and> adjustedBalloon planSmall = 43700000
   \<and> 0 < numMonthlyPayments planDown \<and> 0 < roundingMultiple planDown
   \<and> monthlyInstallment planDown = 51650000 \<and> adjustedBalloon planDown = 50000
   \<and> 0 < numMonthlyPayments scenarioA \<and> roundingMultiple scenarioA = 0
   \<and> monthlyInstallment scenarioA = 3090278 \<and> adjustedBalloon scenarioA = 43749992"
proof -
  have n1: "0 < numMonthlyPayments planSmall" by (simp add: small_n)
  have n2: "0 < numMonthlyPayments planDown" by (simp add: down_n)
  have n3: "0 < numMonthlyPayments scenarioA" by (simp add: scA_n)
  have b3: "balloonValue scenarioA = 43750000"
    unfolding balloonValue_def scA_net by (simp add: scenarioA_def clamp_def)
  have g3: "roundingMultiple scenarioA = 0" by (simp add: scenarioA_def)
  have s1: "monthlyInstallment planSmall = 50650000 \<and> adjustedBalloon planSmall = 43700000"
    using C2_reconciliation_tie_break [OF n1]
    unfolding small_n small_base small_g small_balloon
    by (simp add: Let_def roundCeilToMultiple_def)
  have s2: "monthlyInstallment planDown = 51650000 \<and> adjustedBalloon planDown = 50000"
    using C2_reconciliation_tie_break [OF n2]
    unfolding down_n down_base down_g down_balloon
    by (simp add: Let_def roundCeilToMultiple_def roundFloorToMultiple_def)
  have s3: "monthlyInstallment scenarioA = 3090278 \<and> adjustedBalloon scenarioA = 43749992"
    using C2_reconciliation_tie_break [OF n3]
    unfolding scA_n scA_base g3 b3
    by (simp add: Let_def roundCeilToMultiple_def)
  show ?thesis
    using n1 n2 n3 g3 s1 s2 s3 by (simp add: small_g down_g)
qed

subsection \<open>Exclusivity\<close>

text \<open>
  Claim C5: for every month from 1 to the clamped number of financing months, the rows of
  that month are determined by the extraordinary entries of positive amount that target
  it. If there is at least one, the month has one extra row per such entry, in input
  order, and no monthly row; if there is none, the month has exactly one monthly row,
  with the monthly installment as amount.
\<close>

theorem C5_exclusivity:
  assumes "1 \<le> m" and "m \<le> clampedM inp"
  shows "(filter (\<lambda>e. month e = m \<and> amount e > 0) (extras inp) \<noteq> [] \<longrightarrow>
            filter (\<lambda>r. rmonth r = m) (schedule inp)
              = map (\<lambda>ex. \<lparr>rtype = Extra, rlabel = Extraordinaria m, rmonth = m,
                              ramount = amount ex\<rparr>)
                  (filter (\<lambda>e. month e = m \<and> amount e > 0) (extras inp))
            \<and> \<not> (\<exists>r \<in> set (schedule inp). rtype r = Monthly \<and> rmonth r = m))
       \<and> (filter (\<lambda>e. month e = m \<and> amount e > 0) (extras inp) = [] \<longrightarrow>
            filter (\<lambda>r. rmonth r = m) (schedule inp)
              = [\<lparr>rtype = Monthly, rlabel = CuotaMensual m, rmonth = m,
                  ramount = monthlyInstallment inp\<rparr>])"
proof -
  let ?matching = "filter (\<lambda>e. month e = m \<and> amount e > 0) (extras inp)"
  have at: "filter (\<lambda>e. month e = m) (validExtras inp) = ?matching"
    using assms by (simp add: validExtras_at)
  have rows: "filter (\<lambda>r. rmonth r = m) (schedule inp)
      = (if ?matching \<noteq> []
         then map (\<lambda>ex. \<lparr>rtype = Extra, rlabel = Extraordinaria m, rmonth = m,
                              ramount = amount ex\<rparr>) ?matching
         else [\<lparr>rtype = Monthly, rlabel = CuotaMensual m, rmonth = m,
                  ramount = monthlyInstallment inp\<rparr>])"
    unfolding schedule_month [OF assms] month_rows_group at ..
  have none: "\<not> (\<exists>r \<in> set (schedule inp). rtype r = Monthly \<and> rmonth r = m)"
    if ne: "?matching \<noteq> []"
  proof
    assume "\<exists>r \<in> set (schedule inp). rtype r = Monthly \<and> rmonth r = m"
    then obtain r where r: "r \<in> set (schedule inp)" "rtype r = Monthly" "rmonth r = m"
      by blast
    then have "r \<in> set (filter (\<lambda>r. rmonth r = m) (schedule inp))" by simp
    then have "rtype r = Extra" unfolding rows using ne by auto
    with r show False by simp
  qed
  show ?thesis using rows none by simp
qed

theorem C5_exclusivity_witness:
  "filter (\<lambda>r. rmonth r = 2) (schedule planSmall)
     = [\<lparr>rtype = Extra, rlabel = Extraordinaria 2, rmonth = 2, ramount = 10000000\<rparr>]
   \<and> \<not> (\<exists>r \<in> set (schedule planSmall). rtype r = Monthly \<and> rmonth r = 2)
   \<and> filter (\<lambda>r. rmonth r = 3) (schedule planSmall)
     = [\<lparr>rtype = Monthly, rlabel = CuotaMensual 3, rmonth = 3,
         ramount = monthlyInstallment planSmall\<rparr>]"
proof -
  have two: "(1::int) \<le> 2" "2 \<le> clampedM planSmall" by (simp_all add: small_M)
  have three: "(1::int) \<le> 3" "3 \<le> clampedM planSmall" by (simp_all add: small_M)
  show ?thesis
    using C5_exclusivity [OF two] C5_exclusivity [OF three]
    by (simp add: planSmall_def)
qed

subsection \<open>Count of monthly payment slots\<close>

text \<open>
  Claim C6: the number of monthly payments is the clamped number of financing months
  minus the number of valid extraordinary entries, and not less than zero. Entries are
  counted, not months: two valid entries that target the same month take two slots.
\<close>

theorem C6_monthly_slot_count:
  "numMonthlyPayments inp
     = max 0 (clampedM inp
              - int (length (filter (\<lambda>e. amount e > 0 \<and> month e \<ge> 1 \<and> month e \<le> clampedM inp)
                               (extras inp))))
   \<and> (amount e1 > 0 \<and> amount e2 > 0 \<and> month e1 = month e2
        \<and> 1 \<le> month e1 \<and> month e1 \<le> clampedM inp \<longrightarrow>
       numMonthlyPayments (inp\<lparr>extras := e1 # e2 # xs\<rparr>)
         = max 0 (clampedM inp - int (length (validExtras (inp\<lparr>extras := xs\<rparr>))) - 2))"
proof -
  have len: "length (validExtras i)
      = length (filter (\<lambda>e. amount e > 0 \<and> month e \<ge> 1 \<and> month e \<le> clampedM i) (extras i))"
    for i
    by (simp add: validExtras_eq)
  have M: "clampedM (inp\<lparr>extras := ys\<rparr>) = clampedM inp" for ys
    by (simp add: clampedM_def)
  show ?thesis
    by (auto simp: numMonthlyPayments_def len M)
qed

theorem C6_monthly_slot_count_witness:
  "numMonthlyPayments planDup = 34
   \<and> numMonthlyPayments (planDup\<lparr>extras := []\<rparr>) = 36"
proof -
  let ?e1 = "\<lparr>extra_id = ''a'', month = 12, amount = 10000000\<rparr>"
  let ?e2 = "\<lparr>extra_id = ''b'', month = 12, amount = 10000000\<rparr>"
  have M: "clampedM planDup = 36" by (rule dup_M)
  have p: "planDup\<lparr>extras := [?e1, ?e2]\<rparr> = planDup" by (simp add: planDup_def)
  have hyp: "amount ?e1 > 0 \<and> amount ?e2 > 0 \<and> month ?e1 = month ?e2
        \<and> 1 \<le> month ?e1 \<and> month ?e1 \<le> clampedM planDup"
    by (simp add: M)
  have v: "validExtras (planDup\<lparr>extras := []\<rparr>) = []"
    by (simp add: validExtras_def orderedExtras_def)
  have "numMonthlyPayments (planDup\<lparr>extras := [?e1, ?e2]\<rparr>) = 34"
    using C6_monthly_slot_count [of planDup ?e1 ?e2 "[]", THEN conjunct2, rule_format, OF hyp]
    by (simp add: M v)
  moreover have "numMonthlyPayments (planDup\<lparr>extras := []\<rparr>) = 36"
    using C6_monthly_slot_count [of "planDup\<lparr>extras := []\<rparr>" ?e1 ?e2 "[]", THEN conjunct1]
    by (simp add: clampedM_def clamp_def planDup_def)
  ultimately show ?thesis by (simp add: p)
qed

subsection \<open>Normalization of the extraordinary payments\<close>

text \<open>
  Claim C9: the ordered list keeps exactly the entries with a positive amount and a month
  of at least 1, sorted by ascending month, and the entries of one month stay in input
  order. The valid list used by the schedule drops from it the entries whose month
  exceeds the clamped number of financing months; the sum of the extraordinary payments
  and the count of monthly slots are taken from the valid list.
\<close>

theorem C9_extras_normalization:
  "set (orderedExtras inp) = {e \<in> set (extras inp). amount e > 0 \<and> month e \<ge> 1}
   \<and> length (orderedExtras inp)
       = length (filter (\<lambda>e. amount e > 0 \<and> month e \<ge> 1) (extras inp))
   \<and> sorted (map month (orderedExtras inp))
   \<and> filter (\<lambda>e. month e = k) (orderedExtras inp)
       = filter (\<lambda>e. month e = k) (filter (\<lambda>e. amount e > 0 \<and> month e \<ge> 1) (extras inp))
   \<and> validExtras inp = filter (\<lambda>e. month e \<le> clampedM inp) (orderedExtras inp)
   \<and> extrasSum inp = sum_list (map amount (validExtras inp))
   \<and> numMonthlyPayments inp = max 0 (clampedM inp - int (length (validExtras inp)))"
proof -
  have kept: "\<forall>e \<in> set (orderedExtras inp). amount e > 0 \<and> month e \<ge> 1"
    by (simp add: orderedExtras_def)
  have "validExtras inp = filter (\<lambda>e. month e \<le> clampedM inp) (orderedExtras inp)"
    unfolding validExtras_def using kept by (intro filter_cong) auto
  then show ?thesis
    by (simp add: orderedExtras_def sort_key_stable extrasSum_def foldl_amount
        numMonthlyPayments_def)
qed

subsection \<open>No monthly slot left\<close>

text \<open>
  Claim C10: when there are at least as many valid extraordinary entries as financing
  months, the monthly installment is 0 and the adjusted balloon is the balloon target
  unchanged; every month from 1 to the number of financing months that carries no
  extraordinary entry still has its monthly row, with amount 0.
\<close>

theorem C10_no_monthly_slots:
  assumes "clampedM inp \<le> int (length (validExtras inp))"
  shows "monthlyInstallment inp = 0
     \<and> adjustedBalloon inp = balloonValue inp
     \<and> (\<forall>m. 1 \<le> m \<and> m \<le> clampedM inp
             \<and> filter (\<lambda>e. month e = m) (validExtras inp) = [] \<longrightarrow>
           filter (\<lambda>r. rmonth r = m) (schedule inp)
             = [\<lparr>rtype = Monthly, rlabel = CuotaMensual m, rmonth = m, ramount = 0\<rparr>])"
proof -
  have n: "\<not> 0 < numMonthlyPayments inp"
    using assms by (simp add: numMonthlyPayments_def)
  then have rec: "reconcile inp = (0, balloonValue inp)"
    by (simp add: reconcile_def)
  then have mi: "monthlyInstallment inp = 0" and ab: "adjustedBalloon inp = balloonValue inp"
    by (simp_all add: monthlyInstallment_def adjustedBalloon_def)
  have "filter (\<lambda>r. rmonth r = m) (schedule inp)
             = [\<lparr>rtype = Monthly, rlabel = CuotaMensual m, rmonth = m, ramount = 0\<rparr>]"
    if "1 \<le> m" "m \<le> clampedM inp" "filter (\<lambda>e. month e = m) (validExtras inp) = []" for m
    using that by (simp add: schedule_month month_rows_group mi)
  with mi ab show ?thesis by blast
qed

theorem C10_no_monthly_slots_witness:
  "clampedM planCrowded \<le> int (length (validExtras planCrowded))
   \<and> monthlyInstallment planCrowded = 0
   \<and> adjustedBalloon planCrowded = 43750000
   \<and> filter (\<lambda>e. month e = 2) (validExtras planCrowded) = []
   \<and> filter (\<lambda>r. rmonth r = 2) (schedule planCrowded)
       = [\<lparr>rtype = Monthly, rlabel = CuotaMensual 2, rmonth = 2, ramount = 0\<rparr>]"
proof -
  have hyp: "clampedM planCrowded \<le> int (length (validExtras planCrowded))"
    unfolding crowded_M crowded_valid by (simp add: planCrowded_def)
  have free: "filter (\<lambda>e. month e = 2) (validExtras planCrowded) = []"
    unfolding crowded_valid by (simp add: planCrowded_def)
  have bv: "balloonValue planCrowded = 43750000"
    by (simp add: balloonValue_def netPrice_def negotiatedPrice_def clamp_def planCrowded_def)
  have m2: "(1::int) \<le> 2 \<and> 2 \<le> clampedM planCrowded
             \<and> filter (\<lambda>e. month e = 2) (validExtras planCrowded) = []"
    using free by (simp add: crowded_M)
  show ?thesis
    using hyp free C10_no_monthly_slots [OF hyp]
      C10_no_monthly_slots [OF hyp, THEN conjunct2, THEN conjunct2, rule_format, OF m2]
    by (simp add: bv)
qed

subsection \<open>Date projection\<close>

text \<open>
  Claim C8, as amended: the dated schedule is the schedule with a date label attached to
  every row, and the label of a row is that of the plan-start anchor plus
  max(0, month - 1) months. The initial row (month 0) is dated at the anchor itself; a
  monthly or extra row of month m is dated at the anchor plus m - 1 months; the balloon
  row, at month financingMonths + 1, is dated at offset financingMonths. That is one
  offset more than the rows of the last financing month, so the balloon need not be in
  the calendar month of the last regular installment. The two numbers of the start month
  come from pieces of a string split at its minus signs and are not negative.
\<close>

theorem C8_date_projection:
  assumes "no_minus (fst (startMonth inp))" and "no_minus (snd (startMonth inp))"
  shows "map row.truncate (scheduleWithDates inp) = schedule inp
   \<and> (\<forall>r \<in> set (scheduleWithDates inp).
        rdate r = formatMonthEs (addMonths (parseMonthStr (startMonth inp))
                                  (max 0 (rmonth r - 1)))
        \<and> (rtype r = Initial \<longrightarrow>
              rmonth r = 0 \<and> rdate r = formatMonthEs (parseMonthStr (startMonth inp)))
        \<and> (rtype r = Monthly \<or> rtype r = Extra \<longrightarrow>
              1 \<le> rmonth r \<and> rmonth r \<le> clampedM inp
              \<and> rdate r = formatMonthEs (addMonths (parseMonthStr (startMonth inp))
                                          (rmonth r - 1)))
        \<and> (rtype r = Balloon \<longrightarrow>
              rmonth r = clampedM inp + 1
              \<and> max 0 (rmonth r - 1) = clampedM inp
              \<and> rdate r = formatMonthEs (addMonths (parseMonthStr (startMonth inp))
                                          (clampedM inp))))"
proof -
  let ?base = "parseMonthStr (startMonth inp)"
  let ?M = "clampedM inp"
  have zero: "addMonths ?base 0 = ?base" using assms by (rule anchor_offset_zero)
  have trunc: "map row.truncate (scheduleWithDates inp) = schedule inp"
    unfolding scheduleWithDates_def Let_def
    by (simp add: comp_def truncate_extend)
  have each: "rdate r = formatMonthEs (addMonths ?base (max 0 (rmonth r - 1)))
        \<and> (rtype r = Initial \<longrightarrow> rmonth r = 0 \<and> rdate r = formatMonthEs ?base)
        \<and> (rtype r = Monthly \<or> rtype r = Extra \<longrightarrow>
              1 \<le> rmonth r \<and> rmonth r \<le> ?M
              \<and> rdate r = formatMonthEs (addMonths ?base (rmonth r - 1)))
        \<and> (rtype r = Balloon \<longrightarrow>
              rmonth r = ?M + 1 \<and> max 0 (rmonth r - 1) = ?M
              \<and> rdate r = formatMonthEs (addMonths ?base ?M))"
    if rin: "r \<in> set (scheduleWithDates inp)" for r
  proof -
    obtain r0 where r0: "r0 \<in> set (schedule inp)"
      and r: "r = row.extend r0 \<lparr>rdate = formatMonthEs (addMonths ?base (max 0 (rmonth r0 - 1)))\<rparr>"
      using dated_in_schedule [OF rin] by blast
    have ty: "rtype r = rtype r0" and mo: "rmonth r = rmonth r0"
      and da: "rdate r = formatMonthEs (addMonths ?base (max 0 (rmonth r0 - 1)))"
      unfolding r by (simp_all only: dated_fields)
    note shape = schedule_row_shape [OF r0]
    have a: "rdate r = formatMonthEs (addMonths ?base (max 0 (rmonth r - 1)))"
      by (simp only: da mo)
    have b: "rmonth r = 0 \<and> rdate r = formatMonthEs ?base" if "rtype r = Initial"
      using that shape by (simp add: ty mo da zero)
    have c: "1 \<le> rmonth r \<and> rmonth r \<le> ?M
              \<and> rdate r = formatMonthEs (addMonths ?base (rmonth r - 1))"
      if "rtype r = Monthly \<or> rtype r = Extra"
    proof -
      have "1 \<le> rmonth r0 \<and> rmonth r0 \<le> ?M" using that shape by (simp add: ty)
      then show ?thesis by (simp add: mo da max_def)
    qed
    have d: "rmonth r = ?M + 1 \<and> max 0 (rmonth r - 1) = ?M
              \<and> rdate r = formatMonthEs (addMonths ?base ?M)"
      if "rtype r = Balloon"
    proof -
      have "rmonth r0 = ?M + 1" using that shape by (simp add: ty)
      then show ?thesis using clampedM_range [of inp] by (simp add: mo da max_def)
    qed
    show ?thesis using a b c d by blast
  qed
  show ?thesis using trunc each by blast
qed

theorem C8_date_projection_witness:
  "no_minus (fst (startMonth planSmall)) \<and> no_minus (snd (startMonth planSmall))
   \<and> scheduleWithDates planSmall ! 0 \<in> set (scheduleWithDates planSmall)
   \<and> rtype (scheduleWithDates planSmall ! 0) = Initial
   \<and> rdate (scheduleWithDates planSmall ! 0) = (''enero'', Some 2025)
   \<and> scheduleWithDates planSmall ! 1 \<in> set (scheduleWithDates planSmall)
   \<and> rtype (scheduleWithDates planSmall ! 1) = Monthly
   \<and> rmonth (scheduleWithDates planSmall ! 1) = 1
   \<and> rdate (scheduleWithDates planSmall ! 1) = (''enero'', Some 2025)
   \<and> scheduleWithDates planSmall ! 4 \<in> set (scheduleWithDates planSmall)
   \<and> rtype (scheduleWithDates planSmall ! 4) = Balloon
   \<and> rmonth (scheduleWithDates planSmall ! 4) = 4
   \<and> rdate (scheduleWithDates planSmall ! 4) = (''abril'', Some 2025)"
proof -
  let ?s = "scheduleWithDates planSmall"
  have h1: "no_minus (fst (startMonth planSmall))" and h2: "no_minus (snd (startMonth planSmall))"
    by (simp_all add: planSmall_def no_minus_def)
  have len: "length ?s = 5" by (simp add: small_dated)
  have m0: "?s ! 0 \<in> set ?s" and m1: "?s ! 1 \<in> set ?s" and m4: "?s ! 4 \<in> set ?s"
    using len by simp_all
  have f0: "rtype (?s ! 0) = Initial"
    and f1: "rtype (?s ! 1) = Monthly" "rmonth (?s ! 1) = 1"
    and f4: "rtype (?s ! 4) = Balloon" "rmonth (?s ! 4) = 4"
    by (simp_all add: small_dated dated_fields)
  note t0 = C8_date_projection [OF h1 h2, THEN conjunct2, THEN bspec, OF m0]
  note t1 = C8_date_projection [OF h1 h2, THEN conjunct2, THEN bspec, OF m1]
  note t4 = C8_date_projection [OF h1 h2, THEN conjunct2, THEN bspec, OF m4]
  have z: "formatMonthEs (Some \<lparr>year = 2025, mon = 0\<rparr>) = (''enero'', Some 2025)"
    by (simp add: formatMonthEs_def monthNamesEs_def)
  have d0: "rdate (?s ! 0) = (''enero'', Some 2025)"
    using t0 f0 by (simp add: small_start z format_2025)
  have d1: "rdate (?s ! 1) = (''enero'', Some 2025)"
    using t1 f1 by (simp add: small_start format_2025)
  have d4: "rdate (?s ! 4) = (''abril'', Some 2025)"
    using t4 f4 by (simp add: small_start format_2025 small_M)
  show ?thesis using h1 h2 m0 m1 m4 f0 f1 f4 d0 d1 d4 by simp
qed

text \<open>
  The claim as first stated has the balloon in the same calendar month as the last regular
  installment. On a plan of three months starting in January 2025, the monthly row of
  month 3 is dated March 2025 and the balloon row April 2025.
\<close>

theorem C8_balloon_same_month_counterexample:
  "rtype (scheduleWithDates planSmall ! 3) = Monthly
   \<and> rmonth (scheduleWithDates planSmall ! 3) = clampedM planSmall
   \<and> rdate (scheduleWithDates planSmall ! 3) = (''marzo'', Some 2025)
   \<and> rtype (scheduleWithDates planSmall ! 4) = Balloon
   \<and> rmonth (scheduleWithDates planSmall ! 4) = clampedM planSmall + 1
   \<and> rdate (scheduleWithDates planSmall ! 4) = (''abril'', Some 2025)
   \<and> rdate (scheduleWithDates planSmall ! 4) \<noteq> rdate (scheduleWithDates planSmall ! 3)"
  by (simp add: small_dated dated_fields small_M)

end
